theory Spec2Isabelle
  imports Main
begin

chapter \<open>The model\<close>

section \<open>Thrown values and constants\<close>

text \<open>
  The values of \<open>CodeWhispererConstants\<close> that the transformation code reads. The
  module that declares them is not among the sources, so they are parameters of the
  model. Both durations are JavaScript numbers holding whole seconds; they are integers
  here.
\<close>

record constants =
  failureStates :: "string list"
  transformationJobPollingIntervalSeconds :: int
  transformationJobTimeoutSeconds :: int
  contentChecksumType :: string
  uploadIntent :: string
  dependencyFolderName :: string

text \<open>
  What the code throws: the \<open>TransformByQStoppedError\<close> of \<open>throwIfCancelled\<close>
  and plain \<open>Error\<close>s with their message; and what it lets through: whatever an
  awaited call into the client, the network or the file system rejects with.
\<close>

datatype exn = TransformByQStoppedError | Error string | ClientRejection string

section \<open>Polling a transformation job (\<open>pollTransformationJob\<close>)\<close>

text \<open>
  The awaited call \<open>codeModernizerGetCodeTransformation\<close> either rejects or resolves
  to a response, of which the loop reads \<open>response.transformationJob.status!\<close>.
  The field is optional in the client's type (hence the non-null assertion), so the
  value read is a string or \<open>undefined\<close> (\<open>None\<close>).
\<close>

datatype query_result = Rejects string | Resolves "string option"

text \<open>
  The surroundings of one call: what \<open>transformByQState.isCancelled()\<close> answers at
  the check that opens iteration \<open>n\<close>, and how the status query of iteration \<open>n\<close>
  for a job id ends. Each iteration makes at most one check and one query, in that
  order, so both are indexed by the iteration (counted from 0).
\<close>

record env =
  isCancelled :: "nat \<Rightarrow> bool"
  codeModernizerGetCodeTransformation :: "nat \<Rightarrow> string \<Rightarrow> query_result"

text \<open>The effects of the loop, in the order they happen.\<close>

datatype event =
    ThrowIfCancelled bool
  | GetCodeTransformation string query_result
  | Sleep int

definition throwIfCancelled :: "bool \<Rightarrow> exn + unit" where
  "throwIfCancelled cancelled = (if cancelled then Inl TransformByQStoppedError else Inr ())"

text \<open>
  \<open>Array.prototype.includes\<close> on a string array, asked about a value that is a
  string or \<open>undefined\<close>: \<open>undefined\<close> is never an element of a string array.
\<close>

definition arrayIncludes :: "string list \<Rightarrow> string option \<Rightarrow> bool" where
  "arrayIncludes xs v = (case v of None \<Rightarrow> False | Some s \<Rightarrow> s \<in> set xs)"

text \<open>
  The \<open>while (true)\<close> loop. Its state is the iteration number \<open>n\<close>, the local
  \<open>timer\<close> and the effects so far; the local \<open>status\<close> is assigned in every
  iteration before it is read, so it is not carried along. The result is the value
  returned (\<open>Inr\<close>) or thrown (\<open>Inl\<close>) together with the effects; \<open>None\<close> is
  a loop that never ends.
\<close>

partial_function (option) pollLoop ::
  "constants \<Rightarrow> env \<Rightarrow> string \<Rightarrow> string list \<Rightarrow> nat \<Rightarrow> int \<Rightarrow> event list
    \<Rightarrow> ((exn + string option) \<times> event list) option"
where
  "pollLoop c e jobId validStates n timer tr =
    (case throwIfCancelled (isCancelled e n) of
       Inl err \<Rightarrow> Some (Inl err, tr @ [ThrowIfCancelled True])
     | Inr _ \<Rightarrow>
        (case codeModernizerGetCodeTransformation e n jobId of
           Rejects msg \<Rightarrow>
             Some (Inl (ClientRejection msg),
                   tr @ [ThrowIfCancelled False, GetCodeTransformation jobId (Rejects msg)])
         | Resolves status \<Rightarrow>
             (if arrayIncludes validStates status then
                Some (Inr status,
                      tr @ [ThrowIfCancelled False, GetCodeTransformation jobId (Resolves status)])
              else if arrayIncludes (failureStates c) status then
                Some (Inl (Error ''Job failed, not going to retrieve plan''),
                      tr @ [ThrowIfCancelled False, GetCodeTransformation jobId (Resolves status)])
              else if timer + transformationJobPollingIntervalSeconds c
                        > transformationJobTimeoutSeconds c then
                Some (Inl (Error ''Transform by Q timed out''),
                      tr @ [ThrowIfCancelled False, GetCodeTransformation jobId (Resolves status),
                            Sleep (transformationJobPollingIntervalSeconds c * 1000)])
              else
                pollLoop c e jobId validStates (Suc n)
                  (timer + transformationJobPollingIntervalSeconds c)
                  (tr @ [ThrowIfCancelled False, GetCodeTransformation jobId (Resolves status),
                         Sleep (transformationJobPollingIntervalSeconds c * 1000)]))))"

declare pollLoop.simps [code]

definition pollTransformationJob ::
  "constants \<Rightarrow> env \<Rightarrow> string \<Rightarrow> string list \<Rightarrow> ((exn + string option) \<times> event list) option"
where
  "pollTransformationJob c e jobId validStates = pollLoop c e jobId validStates 0 0 []"

subsection \<open>Describing a run of the loop\<close>

text \<open>
  Iteration \<open>k\<close> observes a pending job when the cancellation check passes and the
  status query resolves to a status that is neither among the valid states nor among
  the failure states.
\<close>

definition pendingAt :: "constants \<Rightarrow> env \<Rightarrow> string \<Rightarrow> string list \<Rightarrow> nat \<Rightarrow> bool" where
  "pendingAt c e jobId validStates k =
    (\<not> isCancelled e k \<and>
     (case codeModernizerGetCodeTransformation e k jobId of
        Rejects msg \<Rightarrow> False
      | Resolves status \<Rightarrow>
          \<not> arrayIncludes validStates status \<and> \<not> arrayIncludes (failureStates c) status))"

text \<open>
  The first \<open>n\<close> iterations all observe a pending job and none of them runs into the
  timeout: after iteration \<open>k\<close> the timer stands at \<open>(k + 1)\<close> polling intervals.
  These are exactly the calls in which iteration \<open>n\<close> is entered.
\<close>

definition pendingThrough :: "constants \<Rightarrow> env \<Rightarrow> string \<Rightarrow> string list \<Rightarrow> nat \<Rightarrow> bool" where
  "pendingThrough c e jobId validStates n =
    (\<forall>k \<in> {0..<n}. pendingAt c e jobId validStates k
       \<and> (int k + 1) * transformationJobPollingIntervalSeconds c
            \<le> transformationJobTimeoutSeconds c)"

text \<open>The effects of an iteration that goes all the way to the sleep.\<close>

definition pendingEvents :: "constants \<Rightarrow> env \<Rightarrow> string \<Rightarrow> nat \<Rightarrow> event list" where
  "pendingEvents c e jobId k =
    [ThrowIfCancelled False,
     GetCodeTransformation jobId (codeModernizerGetCodeTransformation e k jobId),
     Sleep (transformationJobPollingIntervalSeconds c * 1000)]"

definition pendingTrace :: "constants \<Rightarrow> env \<Rightarrow> string \<Rightarrow> nat \<Rightarrow> event list" where
  "pendingTrace c e jobId n = concat (map (pendingEvents c e jobId) [0..<n])"

fun isQuery :: "event \<Rightarrow> bool" where
  "isQuery (GetCodeTransformation jobId r) = True"
| "isQuery ev = False"

definition numQueries :: "event list \<Rightarrow> nat" where
  "numQueries tr = length (filter isQuery tr)"

subsection \<open>Concrete jobs\<close>

text \<open>
  Constants with a polling interval of 5 seconds and a timeout of 12 seconds, so that
  the timeout is reached in the third iteration; and surroundings given by the
  iteration from which the transformation counts as cancelled and by the statuses that
  the successive queries resolve to (\<open>undefined\<close> once the list is used up).
\<close>

definition constants0 :: constants where
  "constants0 = \<lparr>failureStates = [''FAILED'', ''STOPPED'', ''REJECTED''],
     transformationJobPollingIntervalSeconds = 5, transformationJobTimeoutSeconds = 12,
     contentChecksumType = ''SHA_256'', uploadIntent = ''TRANSFORMATION'',
     dependencyFolderName = ''transformation_dependencies_temp_''\<rparr>"

definition scriptedEnv :: "nat \<Rightarrow> string list \<Rightarrow> env" where
  "scriptedEnv cancelledFrom statuses =
    \<lparr>isCancelled = (\<lambda>n. cancelledFrom \<le> n),
     codeModernizerGetCodeTransformation =
       (\<lambda>n jobId. if n < length statuses then Resolves (Some (statuses ! n))
                   else Resolves None)\<rparr>"

section \<open>Sessions of the authentication provider (\<open>CawsAuthenticationProvider\<close>)\<close>

subsection \<open>JavaScript numbers and their text\<close>

text \<open>
  \<open>sessionCounter\<close> is a JavaScript number that starts at 0 and only ever changes by
  \<open>+= 1\<close>, so it holds a whole number. Adding 1 is exact below \<open>2^53\<close>; at
  \<open>2^53\<close> the sum is rounded back to \<open>2^53\<close>, which is therefore the largest
  value the counter reaches.
\<close>

definition plusOne :: "nat \<Rightarrow> nat" where
  "plusOne n = (if n < 2 ^ 53 then n + 1 else n)"

text \<open>
  The text of a whole number in a template literal: its decimal digits (exponent
  notation only starts at \<open>10^21\<close>, far above \<open>2^53\<close>).
\<close>

definition digitChar :: "nat \<Rightarrow> char" where
  "digitChar d = ''0123456789'' ! d"

fun numberToString :: "nat \<Rightarrow> string" where
  "numberToString n =
    (if n < 10 then [digitChar n] else numberToString (n div 10) @ [digitChar (n mod 10)])"

declare numberToString.simps [simp del]

subsection \<open>\<open>CawsAuthStorage\<close>\<close>

record user_metadata =
  invalidSession :: "bool option"

text \<open>
  The two stores of the host that the class wraps: the memento, whose entries are
  objects keyed by user name, and the secret storage. The calls into the host are
  taken to succeed.
\<close>

record caws_auth_storage =
  memento :: "string \<rightharpoonup> (string \<rightharpoonup> user_metadata)"
  secrets :: "string \<rightharpoonup> string"

definition USERS_MEMENTO_KEY :: string where
  "USERS_MEMENTO_KEY = ''caws/users''"

definition SECRETS_KEY :: string where
  "SECRETS_KEY = ''caws/authtokens''"

text \<open>\<open>!cookie\<close> holds for a missing secret and for the empty string.\<close>

definition getSecret :: "caws_auth_storage \<Rightarrow> string \<Rightarrow> exn + string" where
  "getSecret st username =
    (case secrets st (SECRETS_KEY @ ''/'' @ username) of
       None \<Rightarrow> Inl (Error (''No secret found for: '' @ username))
     | Some cookie \<Rightarrow>
         if cookie = [] then Inl (Error (''No secret found for: '' @ username))
         else Inr cookie)"

text \<open>
  \<open>{ ...userdata[username], ...metadata }\<close>: the fields that \<open>metadata\<close> sets
  replace those of the stored entry; a missing entry or argument spreads as nothing.
\<close>

definition updateUser ::
  "caws_auth_storage \<Rightarrow> string \<Rightarrow> string \<Rightarrow> user_metadata option \<Rightarrow> caws_auth_storage"
where
  "updateUser st username secret metadata =
    (let userdata = (case memento st USERS_MEMENTO_KEY of None \<Rightarrow> Map.empty | Some u \<Rightarrow> u);
         old = (case userdata username of None \<Rightarrow> \<lparr>invalidSession = None\<rparr> | Some m \<Rightarrow> m);
         new = (case metadata of
                  None \<Rightarrow> old
                | Some m \<Rightarrow> (case invalidSession m of None \<Rightarrow> old | Some b \<Rightarrow> m))
     in st\<lparr>memento := (memento st)(USERS_MEMENTO_KEY \<mapsto> userdata(username \<mapsto> new)),
            secrets := (secrets st)(SECRETS_KEY @ ''/'' @ username \<mapsto> secret)\<rparr>)"

subsection \<open>The provider\<close>

record account_details =
  id_account :: string
  label :: string

record session =
  accessDetails :: string
  accountDetails :: account_details
  id_session :: string

datatype sessions_change_event = Added session | Removed session

text \<open>
  The provider's fields: the storage it was constructed with, the \<open>sessions\<close> map,
  the \<open>sessionCounter\<close>, and the events fired on \<open>onDidChangeSessions\<close> so far.
  The constructor's other argument, \<open>getUser\<close> (by default \<open>verifyCookie\<close>, which
  asks the remote service), is a parameter of the methods: it throws or yields the
  user name of a cookie.
\<close>

record provider =
  storage :: caws_auth_storage
  sessions :: "string \<rightharpoonup> session"
  sessionCounter :: nat
  fired :: "sessions_change_event list"

definition newProvider :: "caws_auth_storage \<Rightarrow> provider" where
  "newProvider st = \<lparr>storage = st, sessions = Map.empty, sessionCounter = 0, fired = []\<rparr>"

definition createAccount ::
  "(string \<Rightarrow> exn + string) \<Rightarrow> provider \<Rightarrow> string \<Rightarrow> provider \<times> (exn + account_details)"
where
  "createAccount getUser p cookie =
    (case getUser cookie of
       Inl err \<Rightarrow> (p, Inl err)
     | Inr username \<Rightarrow>
         (p\<lparr>storage := updateUser (storage p) username cookie None\<rparr>,
          Inr \<lparr>id_account = username, label = username\<rparr>))"

text \<open>
  \<open>login\<close>: the \<open>try\<close> block reads the secret, verifies it and stores the user; the
  counter is incremented when the session object is built, after the last call that
  can throw. The \<open>catch\<close> block marks the account's session invalid, with an empty
  secret, and rethrows.
\<close>

definition login ::
  "(string \<Rightarrow> exn + string) \<Rightarrow> provider \<Rightarrow> account_details \<Rightarrow> provider \<times> (exn + session)"
where
  "login getUser p account =
    (case getSecret (storage p) (id_account account) of
       Inl err \<Rightarrow>
         (p\<lparr>storage := updateUser (storage p) (id_account account) []
                 (Some \<lparr>invalidSession = Some True\<rparr>)\<rparr>, Inl err)
     | Inr cookie \<Rightarrow>
         (case getUser cookie of
            Inl err \<Rightarrow>
              (p\<lparr>storage := updateUser (storage p) (id_account account) []
                      (Some \<lparr>invalidSession = Some True\<rparr>)\<rparr>, Inl err)
          | Inr username \<Rightarrow>
              (p\<lparr>storage := updateUser (storage p) username cookie None,
                  sessionCounter := plusOne (sessionCounter p)\<rparr>,
               Inr \<lparr>accessDetails = cookie,
                    accountDetails = \<lparr>id_account = username, label = username\<rparr>,
                    id_session = ''session-'' @ numberToString (plusOne (sessionCounter p))\<rparr>)))"

definition createSession ::
  "(string \<Rightarrow> exn + string) \<Rightarrow> provider \<Rightarrow> account_details \<Rightarrow> provider \<times> (exn + session)"
where
  "createSession getUser p account =
    (case login getUser p account of
       (p', Inl err) \<Rightarrow> (p', Inl err)
     | (p', Inr s) \<Rightarrow>
         (p'\<lparr>sessions := (sessions p')(id_session s \<mapsto> s), fired := fired p' @ [Added s]\<rparr>,
          Inr s))"

definition deleteSession :: "provider \<Rightarrow> session \<Rightarrow> provider" where
  "deleteSession p s =
    (case sessions p (id_session s) of
       None \<Rightarrow> p\<lparr>sessions := (sessions p)(id_session s := None)\<rparr>
     | Some old \<Rightarrow>
         p\<lparr>sessions := (sessions p)(id_session s := None), fired := fired p @ [Removed old]\<rparr>)"

text \<open>
  The states one provider instance goes through: it starts with an empty map and the
  counter at 0, and changes by its own methods; the storage object is shared with the
  rest of the extension, which may change it between calls.
\<close>

inductive reachable :: "(string \<Rightarrow> exn + string) \<Rightarrow> provider \<Rightarrow> bool"
  for getUser :: "string \<Rightarrow> exn + string"
where
  constructed: "reachable getUser (newProvider st)"
| account_created: "reachable getUser p \<Longrightarrow> reachable getUser (fst (createAccount getUser p cookie))"
| session_created: "reachable getUser p \<Longrightarrow> reachable getUser (fst (createSession getUser p account))"
| session_deleted: "reachable getUser p \<Longrightarrow> reachable getUser (deleteSession p s)"
| storage_changed: "reachable getUser p \<Longrightarrow> reachable getUser (p\<lparr>storage := st\<rparr>)"

subsection \<open>A concrete provider\<close>

text \<open>A storage that holds a cookie for one user, and a check that accepts that cookie.\<close>

definition storage0 :: caws_auth_storage where
  "storage0 = \<lparr>memento = Map.empty, secrets = [''caws/authtokens/alice'' \<mapsto> ''cookie-1'']\<rparr>"

definition getUser0 :: "string \<Rightarrow> exn + string" where
  "getUser0 cookie = (if cookie = ''cookie-1'' then Inr ''alice'' else Inl (Error ''Invalid session''))"

subsection \<open>The invariant of the session ids\<close>

text \<open>
  The invariant behind the session ids: every id in the map, and every id of a session
  announced as added, is \<open>session-k\<close> for some \<open>k\<close> from 1 up to the counter.
\<close>

definition issued :: "provider \<Rightarrow> string \<Rightarrow> bool" where
  "issued p i = (\<exists>k. 1 \<le> k \<and> k \<le> sessionCounter p \<and> i = ''session-'' @ numberToString k)"

definition idsIssued :: "provider \<Rightarrow> bool" where
  "idsIssued p \<longleftrightarrow>
    sessionCounter p \<le> 2 ^ 53
    \<and> (\<forall>i s. sessions p i = Some s \<longrightarrow> issued p i)
    \<and> (\<forall>s. Added s \<in> set (fired p) \<longrightarrow> issued p (id_session s))"

section \<open>Uploading the payload (\<open>uploadPayload\<close>)\<close>

text \<open>
  The response of the client's \<open>createUploadUrl\<close>, as far as the code reads it, and
  the request the code builds for it.
\<close>

record create_upload_url_response =
  uploadId :: string
  uploadUrl :: string
  kmsKeyArn :: "string option"

record create_upload_url_request =
  contentChecksum :: string
  contentChecksumType_request :: string
  uploadIntent_request :: string

text \<open>
  The surroundings of an upload: the files on disk (name to content), which nothing in
  these functions writes; the SHA-256 digest in base64 of the \<open>crypto\<close> library,
  left uninterpreted; the client call, which rejects or resolves; and the request
  helper \<open>fetch\<close>, whose response promise rejects or resolves to a status.
\<close>

record upload_env =
  files :: "string \<rightharpoonup> string"
  sha256Base64 :: "string \<Rightarrow> string"
  createUploadUrl :: "create_upload_url_request \<Rightarrow> exn + create_upload_url_response"
  fetch :: "string \<Rightarrow> string \<Rightarrow> string \<Rightarrow> (string \<times> string) list \<Rightarrow> exn + nat"

text \<open>The calls that leave the process, in order: the client call and the HTTP request.\<close>

datatype upload_event =
    CreateUploadUrl create_upload_url_request
  | Fetch string string string "(string \<times> string) list"

definition readFileSync :: "upload_env \<Rightarrow> string \<Rightarrow> exn + string" where
  "readFileSync u fileName =
    (case files u fileName of
       None \<Rightarrow> Inl (ClientRejection (''ENOENT: no such file or directory, open '' @ fileName))
     | Some content \<Rightarrow> Inr content)"

definition getSha256 :: "upload_env \<Rightarrow> string \<Rightarrow> exn + string" where
  "getSha256 u fileName =
    (case readFileSync u fileName of
       Inl err \<Rightarrow> Inl err
     | Inr content \<Rightarrow> Inr (sha256Base64 u content))"

text \<open>
  \<open>uploadArtifactToS3\<close>: the headers are an object literal, kept as the list of its
  properties in the order written. The status of the response is only logged.
\<close>

definition uploadArtifactToS3 ::
  "upload_env \<Rightarrow> string \<Rightarrow> create_upload_url_response \<Rightarrow> (exn + unit) \<times> upload_event list"
where
  "uploadArtifactToS3 u fileName resp =
    (case getSha256 u fileName of
       Inl err \<Rightarrow> (Inl err, [])
     | Inr sha256 \<Rightarrow>
        (let headersObj =
           (case kmsKeyArn resp of
              None \<Rightarrow>
                [(''x-amz-checksum-sha256'', sha256),
                 (''Content-Type'', ''application/zip'')]
            | Some arn \<Rightarrow>
                if length arn = 0 then
                  [(''x-amz-checksum-sha256'', sha256),
                   (''Content-Type'', ''application/zip'')]
                else
                  [(''x-amz-checksum-sha256'', sha256),
                   (''Content-Type'', ''application/zip''),
                   (''x-amz-server-side-encryption'', ''aws:kms''),
                   (''x-amz-server-side-encryption-aws-kms-key-id'', arn)])
         in case readFileSync u fileName of
              Inl err \<Rightarrow> (Inl err, [])
            | Inr body \<Rightarrow>
               (case fetch u ''PUT'' (uploadUrl resp) body headersObj of
                  Inl err \<Rightarrow> (Inl err, [Fetch ''PUT'' (uploadUrl resp) body headersObj])
                | Inr status \<Rightarrow> (Inr (), [Fetch ''PUT'' (uploadUrl resp) body headersObj]))))"

definition uploadPayload ::
  "constants \<Rightarrow> upload_env \<Rightarrow> string \<Rightarrow> (exn + string) \<times> upload_event list"
where
  "uploadPayload c u payloadFileName =
    (case getSha256 u payloadFileName of
       Inl err \<Rightarrow> (Inl err, [])
     | Inr sha256 \<Rightarrow>
        (let request = \<lparr>contentChecksum = sha256,
                         contentChecksumType_request = contentChecksumType c,
                         uploadIntent_request = uploadIntent c\<rparr>
         in case createUploadUrl u request of
              Inl err \<Rightarrow> (Inl err, [CreateUploadUrl request])
            | Inr response \<Rightarrow>
               (case uploadArtifactToS3 u payloadFileName response of
                  (Inl err, evs) \<Rightarrow> (Inl err, CreateUploadUrl request # evs)
                | (Inr _, evs) \<Rightarrow> (Inr (uploadId response), CreateUploadUrl request # evs))))"

subsection \<open>A concrete upload\<close>

text \<open>
  One payload file on disk, a stand-in digest, a client that hands out an upload URL
  without a key, and a store that answers 200.
\<close>

definition uploadEnv0 :: upload_env where
  "uploadEnv0 =
    \<lparr>files = [''/tmp/zipped-code.zip'' \<mapsto> ''PK-bytes''],
     sha256Base64 = (\<lambda>content. ''digest-of-'' @ content),
     createUploadUrl = (\<lambda>request.
        Inr \<lparr>uploadId = ''upload-1'', uploadUrl = ''https://bucket.example/key'',
             kmsKeyArn = None\<rparr>),
     fetch = (\<lambda>method url body headers. Inr 200)\<rparr>"

section \<open>Packaging the project (\<open>zipCode\<close>)\<close>

subsection \<open>Paths and directories\<close>

text \<open>
  A path is the list of its segments, without \<open>.\<close> and \<open>..\<close> segments, as
  all paths are that the packaging code builds from a module directory and the names
  of directory entries. On such paths the functions of the \<open>path\<close> library that
  the code calls are the following.
\<close>

type_synonym path = "string list"

definition path_resolve :: "path \<Rightarrow> string \<Rightarrow> path" where
  "path_resolve dir name = dir @ [name]"

definition path_join :: "path \<Rightarrow> path \<Rightarrow> path" where
  "path_join a b = a @ b"

definition path_dirname :: "path \<Rightarrow> path" where
  "path_dirname p = butlast p"

text \<open>
  \<open>path.relative\<close> drops the common segments and climbs out of what is left of the
  first path.
\<close>

fun path_relative :: "path \<Rightarrow> path \<Rightarrow> path" where
  "path_relative (a # as) (b # bs) =
    (if a = b then path_relative as bs else replicate (length (a # as)) ''..'' @ (b # bs))"
| "path_relative [] bs = bs"
| "path_relative as [] = replicate (length as) ''..''"

text \<open>
  What \<open>readdirSync\<close> with \<open>withFileTypes\<close> sees in a directory, in the order it
  lists it: files, with their content, and directories, with their entries.
\<close>

datatype dirent = File string string | Directory string "dirent list"

text \<open>
  \<open>getFilesRecursively\<close>: the \<open>flatMap\<close> over the entries of a directory is the
  recursion over their list, and its callback the function on one entry.
\<close>

fun getFilesRecursively :: "path \<Rightarrow> dirent list \<Rightarrow> path list"
  and getFilesOfEntry :: "path \<Rightarrow> dirent \<Rightarrow> path list"
where
  "getFilesRecursively dir [] = []"
| "getFilesRecursively dir (entry # entries) =
    getFilesOfEntry dir entry @ getFilesRecursively dir entries"
| "getFilesOfEntry dir (File name content) = [path_resolve dir name]"
| "getFilesOfEntry dir (Directory name children) =
    (if name \<noteq> ''target'' then getFilesRecursively (path_resolve dir name) children else [])"

text \<open>The content of the file at a path below a directory with the given entries.\<close>

fun fileAt :: "dirent list \<Rightarrow> path \<Rightarrow> string option" where
  "fileAt [] p = None"
| "fileAt (File name content # rest) p = (if p = [name] then Some content else fileAt rest p)"
| "fileAt (Directory name children # rest) p =
    (case p of
       [] \<Rightarrow> None
     | seg # q \<Rightarrow> if seg = name \<and> q \<noteq> [] then fileAt children q else fileAt rest p)"

subsection \<open>The archive\<close>

text \<open>
  The \<open>AdmZip\<close> object keeps its entries by name: adding under a name that is there
  already replaces the data of that entry, and \<open>toBuffer\<close> writes the entries in an
  order of their names, whatever the order they were added in. An archive is therefore
  the map from entry names to entry data. The headers that the library writes around
  the entries, with their times, are its own and are not modelled.
\<close>

type_synonym zip_archive = "path \<rightharpoonup> string"

definition addFile :: "path \<Rightarrow> string \<Rightarrow> zip_archive \<Rightarrow> zip_archive" where
  "addFile name content zipArchive = zipArchive(name \<mapsto> content)"

text \<open>
  The class \<open>ZipManifest\<close> is not among the sources; the code assigns its field
  \<open>dependenciesRoot\<close> and passes the object to \<open>JSON.stringify\<close>. The text that
  results is a parameter of the model, as a function of the field assigned.
\<close>

record zip_manifest =
  dependenciesRoot :: string

text \<open>
  How the Maven command ends: with a spawn error or a status other than 0; or with
  status 0, and then with the entries of the output directory it made, or \<open>None\<close>
  when it made none.
\<close>

datatype maven_run = MavenError | MavenDone "dirent list option"

text \<open>
  The surroundings of a packaging run: the entries of the module directory; the run of
  the Maven command; the reading of \<open>Date.now()\<close>; and \<open>os.tmpdir()\<close>.
\<close>

record zip_env =
  projectTree :: "dirent list"
  mavenOutput :: maven_run
  now :: nat
  tmpdir :: path

text \<open>The text of an absolute path, as it appears in the messages of the file system.\<close>

definition path_text :: "path \<Rightarrow> string" where
  "path_text p = concat (map (\<lambda>segment. ''/'' @ segment) p)"

text \<open>
  \<open>getProjectDependencies\<close> names the folder after the clock, runs Maven with the
  folder as output directory, and returns the path and the name of the folder. It does
  not create the folder.
\<close>

definition getProjectDependencies :: "constants \<Rightarrow> zip_env \<Rightarrow> path \<Rightarrow> exn + (path \<times> string)" where
  "getProjectDependencies c e modulePath =
    (let folderName = dependencyFolderName c @ numberToString (now e);
         folderPath = path_join (tmpdir e) [folderName]
     in case mavenOutput e of
          MavenError \<Rightarrow> Inl (Error ''Maven Dependency Error'')
        | MavenDone copied \<Rightarrow> Inr (folderPath, folderName))"

text \<open>
  The first \<open>readdirSync\<close> of \<open>getFilesRecursively(dependencyFolderPath)\<close>: it
  yields the entries Maven left in the folder, and throws when there is no folder.
\<close>

definition readDependencyFolder :: "zip_env \<Rightarrow> path \<Rightarrow> exn + dirent list" where
  "readDependencyFolder e dependencyFolderPath =
    (case mavenOutput e of
       MavenDone (Some copied) \<Rightarrow> Inr copied
     | MavenDone None \<Rightarrow>
        Inl (ClientRejection
          (''ENOENT: no such file or directory, scandir '' @ [CHR 0x27]
            @ path_text dependencyFolderPath @ [CHR 0x27]))
     | MavenError \<Rightarrow>
        Inl (ClientRejection
          (''ENOENT: no such file or directory, scandir '' @ [CHR 0x27]
            @ path_text dependencyFolderPath @ [CHR 0x27])))"

text \<open>
  \<open>zip.addLocalFile(file, zipPath)\<close> reads the file and adds it under \<open>zipPath\<close>
  with its own base name; it throws, naming the file, when the file is not there. The
  file is read through the entries of the folder it was listed in.
\<close>

definition addLocalFile ::
  "path \<Rightarrow> dirent list \<Rightarrow> path \<Rightarrow> path \<Rightarrow> zip_archive \<Rightarrow> exn + zip_archive"
where
  "addLocalFile folder tree file zipPath zipArchive =
    (case fileAt tree (path_relative folder file) of
       None \<Rightarrow> Inl (Error (''ADM-ZIP: File not found: '' @ path_text file))
     | Some content \<Rightarrow> Inr (addFile (zipPath @ [last file]) content zipArchive))"

text \<open>
  The two \<open>for\<close> loops of \<open>zipCode\<close> have the same body, over the files of a folder
  and the top directory (\<open>topDir\<close>) their entries go under.
\<close>

fun addLocalFiles ::
  "path \<Rightarrow> dirent list \<Rightarrow> path \<Rightarrow> path list \<Rightarrow> zip_archive \<Rightarrow> exn + zip_archive"
where
  "addLocalFiles folder tree topDir [] zipArchive = Inr zipArchive"
| "addLocalFiles folder tree topDir (file # others) zipArchive =
    (let relativePath = path_relative folder file;
         paddedPath = path_join topDir relativePath
     in case addLocalFile folder tree file (path_dirname paddedPath) zipArchive of
          Inl err \<Rightarrow> Inl err
        | Inr zipArchive' \<Rightarrow> addLocalFiles folder tree topDir others zipArchive')"

text \<open>
  \<open>zipCode\<close> lists the module directory, which is there, being an open workspace
  folder; gets the dependencies; lists the dependency folder; packs; writes the archive
  to a file in the temporary directory and removes the dependency folder. It returns
  the path of the archive file; the model returns with it the entries of the archive
  written there. The local \<open>dependencyFolderName\<close> is primed, to tell it from
  the constant of that name.
\<close>

definition zipCode ::
  "constants \<Rightarrow> (zip_manifest \<Rightarrow> string) \<Rightarrow> zip_env \<Rightarrow> path \<Rightarrow> exn + (path \<times> zip_archive)"
where
  "zipCode c JSON_stringify e modulePath =
    (let sourceFolder = modulePath;
         sourceFiles = getFilesRecursively sourceFolder (projectTree e)
     in case getProjectDependencies c e modulePath of
          Inl err \<Rightarrow> Inl err
        | Inr (dependencyFolderPath, dependencyFolderName') \<Rightarrow>
           (case readDependencyFolder e dependencyFolderPath of
              Inl err \<Rightarrow> Inl err
            | Inr copied \<Rightarrow>
               (let dependencyFiles = getFilesRecursively dependencyFolderPath copied;
                    zipManifest = \<lparr>dependenciesRoot = dependencyFolderName' @ ''/''\<rparr>;
                    zipArchive = addFile [''manifest.json''] (JSON_stringify zipManifest) Map.empty
                in case addLocalFiles sourceFolder (projectTree e) [''sources''] sourceFiles
                          zipArchive of
                     Inl err \<Rightarrow> Inl err
                   | Inr zipArchive1 \<Rightarrow>
                      (case addLocalFiles dependencyFolderPath copied [dependencyFolderName']
                              dependencyFiles zipArchive1 of
                         Inl err \<Rightarrow> Inl err
                       | Inr zipArchive2 \<Rightarrow>
                           Inr (path_join (tmpdir e) [''zipped-code.zip''], zipArchive2)))))"

subsection \<open>The same files\<close>





subsection \<open>Concrete projects\<close>




section \<open>The environment settings wizard (\<open>EnvironmentSettingsWizard\<close>)\<close>

subsection \<open>Objects\<close>

text \<open>
  A JavaScript number as the wizard meets it: what \<open>Number(r)\<close> makes of the text
  typed in, which is \<open>NaN\<close> or a number; and the strict inequality \<open>!==\<close> on
  numbers, under which \<open>NaN\<close> differs from everything.
\<close>

datatype num = NaN | Number int

definition strictNotEqual :: "num \<Rightarrow> num \<Rightarrow> bool" where
  "strictNotEqual a b = (case (a, b) of (Number x, Number y) \<Rightarrow> x \<noteq> y | _ \<Rightarrow> True)"

text \<open>
  Objects live in a heap and are referred to by their address, so that two references
  to one object can be told from two equal objects. The heap is the list of the
  objects created so far: a new object gets the next address. The two shapes of
  object are those of the type \<open>SettingsForm\<close>: the form, which refers to its
  persistent storage object, and the persistent storage object.
\<close>

type_synonym addr = nat

record settings_form =
  inactivityTimeoutMinutes :: num
  instanceType :: string
  persistentStorage :: addr

record persistent_storage =
  sizeInGiB :: num

datatype cell = SettingsForm settings_form | PersistentStorage persistent_storage

type_synonym heap = "cell list"

definition formAt :: "heap \<Rightarrow> addr \<Rightarrow> settings_form option" where
  "formAt h a =
    (if a < length h then (case h ! a of SettingsForm f \<Rightarrow> Some f | _ \<Rightarrow> None) else None)"

definition storageAt :: "heap \<Rightarrow> addr \<Rightarrow> persistent_storage option" where
  "storageAt h a =
    (if a < length h then (case h ! a of PersistentStorage s \<Rightarrow> Some s | _ \<Rightarrow> None) else None)"

subsection \<open>\<open>diff\<close> and the menu\<close>

text \<open>
  \<open>diff\<close> at the two object shapes. It fills an object \<open>d\<close> that it creates
  itself with the properties in which its arguments differ, taking the value from the
  second argument (the entries of the second argument are visited last), and for an
  object-valued property the \<open>diff\<close> of the two objects, if that has any key. It
  reads its arguments and writes only to \<open>d\<close>, so its result is kept as a value.
\<close>

record diff_persistent_storage =
  d_sizeInGiB :: "num option"

record diff_settings_form =
  d_inactivityTimeoutMinutes :: "num option"
  d_instanceType :: "string option"
  d_persistentStorage :: "diff_persistent_storage option"

definition diffPersistentStorage ::
  "persistent_storage \<Rightarrow> persistent_storage \<Rightarrow> diff_persistent_storage"
where
  "diffPersistentStorage obj1 obj2 =
    \<lparr>d_sizeInGiB =
       (if strictNotEqual (sizeInGiB obj1) (sizeInGiB obj2) then Some (sizeInGiB obj2) else None)\<rparr>"

definition diff ::
  "settings_form \<times> persistent_storage \<Rightarrow> settings_form \<times> persistent_storage
    \<Rightarrow> diff_settings_form"
where
  "diff obj1 obj2 =
    \<lparr>d_inactivityTimeoutMinutes =
       (if strictNotEqual (inactivityTimeoutMinutes (fst obj1)) (inactivityTimeoutMinutes (fst obj2))
        then Some (inactivityTimeoutMinutes (fst obj2)) else None),
     d_instanceType =
       (if instanceType (fst obj1) \<noteq> instanceType (fst obj2)
        then Some (instanceType (fst obj2)) else None),
     d_persistentStorage =
       (if d_sizeInGiB (diffPersistentStorage (snd obj1) (snd obj2)) \<noteq> None
        then Some (diffPersistentStorage (snd obj1) (snd obj2)) else None)\<rparr>"

text \<open>
  What \<open>createMenuPrompt\<close> computes from the two states before it builds the picker:
  the \<open>description\<close> of each of the three edit items. Labels and details are not
  modelled. Reading a state means reading the form and the storage object it refers
  to; a reference that is not of the expected shape is a \<open>TypeError\<close>.
\<close>

record menu =
  instanceDescription :: "string option"
  timeoutDescription :: "string option"
  storageDescription :: "string option"

definition readState :: "heap \<Rightarrow> addr \<Rightarrow> (settings_form \<times> persistent_storage) option" where
  "readState h a =
    (case formAt h a of
       None \<Rightarrow> None
     | Some f \<Rightarrow>
        (case storageAt h (persistentStorage f) of
           None \<Rightarrow> None
         | Some s \<Rightarrow> Some (f, s)))"

definition createMenuPrompt :: "heap \<Rightarrow> addr \<Rightarrow> addr \<Rightarrow> exn + menu" where
  "createMenuPrompt h initState currentState =
    (case (readState h initState, readState h currentState) of
       (Some obj1, Some obj2) \<Rightarrow>
         (let diffState = diff obj1 obj2
          in Inr \<lparr>instanceDescription =
                    (if d_instanceType diffState \<noteq> None then Some ''(Modified)'' else None),
                  timeoutDescription =
                    (if d_inactivityTimeoutMinutes diffState \<noteq> None
                     then Some ''(Modified)'' else None),
                  storageDescription =
                    (case d_persistentStorage diffState of
                       None \<Rightarrow> None
                     | Some d \<Rightarrow>
                         if d_sizeInGiB d \<noteq> None then Some ''(Modified)'' else None)\<rparr>)
     | _ \<Rightarrow> Inl (Error ''TypeError''))"

subsection \<open>The user and the loop\<close>

text \<open>
  What the user does with one menu: pick one of the three edit items, whose \<open>data\<close>
  function then runs its own prompt and gets a valid response (\<open>Some\<close>) or none;
  pick \<open>Save Settings\<close>; or leave the menu without a valid response.
\<close>

datatype user_action =
    EditComputeSize "string option"
  | EditTimeoutLength "num option"
  | EditPersistentStorageSize "num option"
  | SaveSettings
  | Leave

text \<open>
  The \<open>data\<close> functions of the three edit items. The first two assign a property of
  \<open>currentState\<close>; the third creates a new object \<open>{ sizeInGiB: result }\<close> and
  assigns the reference to it.
\<close>

definition assignForm :: "heap \<Rightarrow> addr \<Rightarrow> (settings_form \<Rightarrow> settings_form) \<Rightarrow> heap" where
  "assignForm h a upd =
    (case formAt h a of None \<Rightarrow> h | Some f \<Rightarrow> h[a := SettingsForm (upd f)])"

definition instanceItemData :: "heap \<Rightarrow> addr \<Rightarrow> string option \<Rightarrow> heap" where
  "instanceItemData h currentState result =
    (case result of
       None \<Rightarrow> h
     | Some r \<Rightarrow> assignForm h currentState (\<lambda>f. f\<lparr>instanceType := r\<rparr>))"

definition timeoutItemData :: "heap \<Rightarrow> addr \<Rightarrow> num option \<Rightarrow> heap" where
  "timeoutItemData h currentState result =
    (case result of
       None \<Rightarrow> h
     | Some r \<Rightarrow> assignForm h currentState (\<lambda>f. f\<lparr>inactivityTimeoutMinutes := r\<rparr>))"

definition storageItemData :: "heap \<Rightarrow> addr \<Rightarrow> num option \<Rightarrow> heap" where
  "storageItemData h currentState result =
    (case result of
       None \<Rightarrow> h
     | Some r \<Rightarrow>
         assignForm (h @ [PersistentStorage \<lparr>sizeInGiB = r\<rparr>]) currentState
           (\<lambda>f. f\<lparr>persistentStorage := length h\<rparr>))"

text \<open>
  How \<open>run\<close> ends: it returns the response to \<open>Save Settings\<close>, which is the
  reference \<open>curr\<close>; it returns \<open>undefined\<close> after the \<open>break\<close>; it throws; or
  it is still waiting at a menu when the user's actions are used up.
\<close>

datatype run_result = Returns addr | ReturnsUndefined | Throws exn | Waiting

text \<open>
  The \<open>while (true)\<close> loop of \<open>run\<close>, over the actions of the user: the state is
  the heap and the descriptions of the menus shown so far; \<open>current\<close> is the local
  \<open>curr\<close>.
\<close>

fun runLoop ::
  "heap \<Rightarrow> addr \<Rightarrow> addr \<Rightarrow> user_action list \<Rightarrow> menu list \<Rightarrow> heap \<times> run_result \<times> menu list"
where
  "runLoop h initState current actions shown =
    (case createMenuPrompt h initState current of
       Inl err \<Rightarrow> (h, Throws err, shown)
     | Inr prompter \<Rightarrow>
        (case actions of
           [] \<Rightarrow> (h, Waiting, shown @ [prompter])
         | Leave # later \<Rightarrow> (h, ReturnsUndefined, shown @ [prompter])
         | SaveSettings # later \<Rightarrow> (h, Returns current, shown @ [prompter])
         | EditComputeSize result # later \<Rightarrow>
             runLoop (instanceItemData h current result) initState current later (shown @ [prompter])
         | EditTimeoutLength result # later \<Rightarrow>
             runLoop (timeoutItemData h current result) initState current later (shown @ [prompter])
         | EditPersistentStorageSize result # later \<Rightarrow>
             runLoop (storageItemData h current result) initState current later (shown @ [prompter])))"

declare runLoop.simps [simp del]

text \<open>
  \<open>run\<close>: \<open>Object.assign({}, this.initState)\<close> creates an object with the
  properties of the initial settings, the reference to the persistent storage object
  among them, and the loop works on it.
\<close>

definition run :: "heap \<Rightarrow> addr \<Rightarrow> user_action list \<Rightarrow> heap \<times> run_result \<times> menu list" where
  "run h initState actions =
    (case formAt h initState of
       None \<Rightarrow> (h, Throws (Error ''TypeError''), [])
     | Some f \<Rightarrow> runLoop (h @ [SettingsForm f]) initState (length h) actions [])"

subsection \<open>Concrete settings\<close>

text \<open>A heap with one settings form, at address 1, and its storage object, at address 0.\<close>

definition heap0 :: heap where
  "heap0 =
    [PersistentStorage \<lparr>sizeInGiB = Number 16\<rparr>,
     SettingsForm \<lparr>inactivityTimeoutMinutes = Number 30, instanceType = ''mde.large'',
                   persistentStorage = 0\<rparr>]"

chapter \<open>Properties\<close>

section \<open>Polling a transformation job\<close>

subsection \<open>Unfolding the loop\<close>

lemma pollLoop_pending_step:
  assumes "pendingAt c e jobId vs n"
    and "timer + transformationJobPollingIntervalSeconds c \<le> transformationJobTimeoutSeconds c"
  shows "pollLoop c e jobId vs n timer tr =
    pollLoop c e jobId vs (Suc n) (timer + transformationJobPollingIntervalSeconds c)
      (tr @ pendingEvents c e jobId n)"
  using assms
  by (subst pollLoop.simps)
     (auto simp: pendingAt_def pendingEvents_def throwIfCancelled_def split: query_result.splits)

lemma pollLoop_timeout_step:
  assumes "pendingAt c e jobId vs n"
    and "transformationJobTimeoutSeconds c < timer + transformationJobPollingIntervalSeconds c"
  shows "pollLoop c e jobId vs n timer tr =
    Some (Inl (Error ''Transform by Q timed out''), tr @ pendingEvents c e jobId n)"
  using assms
  by (subst pollLoop.simps)
     (auto simp: pendingAt_def pendingEvents_def throwIfCancelled_def split: query_result.splits)

lemma pollLoop_cancelled_step:
  assumes "isCancelled e n"
  shows "pollLoop c e jobId vs n timer tr =
    Some (Inl TransformByQStoppedError, tr @ [ThrowIfCancelled True])"
  using assms by (subst pollLoop.simps) (simp add: throwIfCancelled_def)

lemma pollLoop_valid_step:
  assumes "\<not> isCancelled e n"
    and "codeModernizerGetCodeTransformation e n jobId = Resolves status"
    and "arrayIncludes vs status"
  shows "pollLoop c e jobId vs n timer tr =
    Some (Inr status, tr @ [ThrowIfCancelled False, GetCodeTransformation jobId (Resolves status)])"
  using assms by (subst pollLoop.simps) (simp add: throwIfCancelled_def)

lemma pollLoop_failure_step:
  assumes "\<not> isCancelled e n"
    and "codeModernizerGetCodeTransformation e n jobId = Resolves status"
    and "\<not> arrayIncludes vs status"
    and "arrayIncludes (failureStates c) status"
  shows "pollLoop c e jobId vs n timer tr =
    Some (Inl (Error ''Job failed, not going to retrieve plan''),
          tr @ [ThrowIfCancelled False, GetCodeTransformation jobId (Resolves status)])"
  using assms by (subst pollLoop.simps) (simp add: throwIfCancelled_def)

lemma pendingThrough_iff:
  "pendingThrough c e jobId vs n \<longleftrightarrow>
    (\<forall>k<n. pendingAt c e jobId vs k
       \<and> (int k + 1) * transformationJobPollingIntervalSeconds c
            \<le> transformationJobTimeoutSeconds c)"
  by (auto simp: pendingThrough_def)

lemma pendingThrough_Suc:
  "pendingThrough c e jobId vs (Suc n) \<longleftrightarrow>
    pendingThrough c e jobId vs n \<and> pendingAt c e jobId vs n
      \<and> (int n + 1) * transformationJobPollingIntervalSeconds c
           \<le> transformationJobTimeoutSeconds c"
  by (auto simp: pendingThrough_iff less_Suc_eq)

lemma pendingTrace_Suc:
  "pendingTrace c e jobId (Suc n) = pendingTrace c e jobId n @ pendingEvents c e jobId n"
  by (simp add: pendingTrace_def)

text \<open>
  While the job is pending and the timeout is not reached, the call is the loop
  entered at iteration \<open>n\<close> with \<open>n\<close> polling intervals on the timer.
\<close>

lemma pollLoop_prefix:
  "pendingThrough c e jobId vs n \<Longrightarrow>
    pollTransformationJob c e jobId vs =
    pollLoop c e jobId vs n (int n * transformationJobPollingIntervalSeconds c)
      (pendingTrace c e jobId n)"
proof (induction n)
  case 0
  then show ?case by (simp add: pendingTrace_def pollTransformationJob_def)
next
  case (Suc n)
  then have p: "pendingThrough c e jobId vs n" and a: "pendingAt c e jobId vs n"
    and t: "(int n + 1) * transformationJobPollingIntervalSeconds c
              \<le> transformationJobTimeoutSeconds c"
    by (simp_all add: pendingThrough_Suc)
  from t have t': "int n * transformationJobPollingIntervalSeconds c
      + transformationJobPollingIntervalSeconds c \<le> transformationJobTimeoutSeconds c"
    by (simp add: algebra_simps)
  show ?case
    using Suc.IH [OF p] pollLoop_pending_step [OF a t', of "pendingTrace c e jobId n"]
    by (simp add: pendingTrace_Suc algebra_simps)
qed

lemma numQueries_append: "numQueries (xs @ ys) = numQueries xs + numQueries ys"
  by (simp add: numQueries_def)

lemma numQueries_pendingEvents: "numQueries (pendingEvents c e jobId k) = 1"
  by (simp add: numQueries_def pendingEvents_def)

lemma numQueries_pendingTrace: "numQueries (pendingTrace c e jobId n) = n"
proof (induction n)
  case 0
  show ?case by (simp add: pendingTrace_def numQueries_def)
next
  case (Suc n)
  then show ?case
    by (simp add: pendingTrace_Suc numQueries_append numQueries_pendingEvents)
qed

text \<open>Every iteration either ends the call, after at most one query, or is pending.\<close>

lemma pollLoop_step_cases:
  "(\<exists>res evs. pollLoop c e jobId vs n timer tr = Some (res, tr @ evs) \<and> numQueries evs \<le> 1
      \<and> (\<forall>status. res = Inr status \<longrightarrow> arrayIncludes vs status))
   \<or> (pendingAt c e jobId vs n
       \<and> timer + transformationJobPollingIntervalSeconds c \<le> transformationJobTimeoutSeconds c)"
  by (subst pollLoop.simps)
     (auto simp: pendingAt_def throwIfCancelled_def numQueries_def split: query_result.splits)

lemma mult_le_iff_le_div:
  fixes i k t :: int
  assumes "0 < i"
  shows "k * i \<le> t \<longleftrightarrow> k \<le> t div i"
proof
  assume "k * i \<le> t"
  then have "(k * i) div i \<le> t div i" using assms by (rule zdiv_mono1)
  then show "k \<le> t div i" using assms by simp
next
  assume "k \<le> t div i"
  then have "k * i \<le> (t div i) * i" using assms by (simp add: mult_right_mono)
  also have "\<dots> = t - t mod i" by (simp add: minus_mod_eq_div_mult)
  also have "\<dots> \<le> t" using assms by simp
  finally show "k * i \<le> t" .
qed

text \<open>
  With a positive polling interval the loop ends from every iteration it can enter, and
  the queries it still makes fit into what is left of the timeout.
\<close>

lemma pollLoop_terminates:
  assumes pos: "0 < transformationJobPollingIntervalSeconds c"
  shows "nat (transformationJobTimeoutSeconds c div transformationJobPollingIntervalSeconds c) - n = k \<Longrightarrow>
    int n * transformationJobPollingIntervalSeconds c \<le> transformationJobTimeoutSeconds c \<Longrightarrow>
    \<exists>res tr'. pollLoop c e jobId vs n (int n * transformationJobPollingIntervalSeconds c) tr = Some (res, tr')
      \<and> numQueries tr' + n \<le> numQueries tr
            + nat (transformationJobTimeoutSeconds c div transformationJobPollingIntervalSeconds c) + 1
      \<and> (\<forall>status. res = Inr status \<longrightarrow> arrayIncludes vs status)"
proof (induction k arbitrary: n tr)
  case 0
  let ?I = "transformationJobPollingIntervalSeconds c" and ?T = "transformationJobTimeoutSeconds c"
  from "0.prems"(2) pos have le: "int n \<le> ?T div ?I"
    by (simp add: mult_le_iff_le_div)
  with "0.prems"(1) have eq: "int n = ?T div ?I" by linarith
  then have "\<not> int (Suc n) \<le> ?T div ?I" by simp
  then have over: "\<not> int n * ?I + ?I \<le> ?T"
    using mult_le_iff_le_div [OF pos, of "int (Suc n)" ?T] by (simp add: algebra_simps)
  from pollLoop_step_cases [of c e jobId vs n "int n * ?I" tr] over
  obtain res evs where "pollLoop c e jobId vs n (int n * ?I) tr = Some (res, tr @ evs)"
    and "numQueries evs \<le> 1"
    and "\<forall>status. res = Inr status \<longrightarrow> arrayIncludes vs status" by blast
  moreover have "n \<le> nat (?T div ?I)" using le by linarith
  ultimately show ?case by (auto simp: numQueries_append)
next
  case (Suc k)
  let ?I = "transformationJobPollingIntervalSeconds c" and ?T = "transformationJobTimeoutSeconds c"
  from Suc.prems(2) pos have le: "int n \<le> ?T div ?I"
    by (simp add: mult_le_iff_le_div)
  then have nle: "n \<le> nat (?T div ?I)" by linarith
  from pollLoop_step_cases [of c e jobId vs n "int n * ?I" tr]
  show ?case
  proof
    assume "\<exists>res evs. pollLoop c e jobId vs n (int n * ?I) tr = Some (res, tr @ evs)
      \<and> numQueries evs \<le> 1
      \<and> (\<forall>status. res = Inr status \<longrightarrow> arrayIncludes vs status)"
    with nle show ?thesis by (auto simp: numQueries_append)
  next
    assume a: "pendingAt c e jobId vs n \<and> int n * ?I + ?I \<le> ?T"
    then have next_le: "int (Suc n) * ?I \<le> ?T" by (simp add: algebra_simps)
    have k: "nat (?T div ?I) - Suc n = k" using Suc.prems(1) by simp
    from Suc.IH [OF k next_le, of "tr @ pendingEvents c e jobId n"]
    obtain res tr' where r: "pollLoop c e jobId vs (Suc n) (int (Suc n) * ?I)
        (tr @ pendingEvents c e jobId n) = Some (res, tr')"
      and q: "numQueries tr' + Suc n
                \<le> numQueries (tr @ pendingEvents c e jobId n) + nat (?T div ?I) + 1"
      and v: "\<forall>status. res = Inr status \<longrightarrow> arrayIncludes vs status"
      by blast
    have "int n * ?I + ?I = int (Suc n) * ?I" by (simp add: algebra_simps)
    with pollLoop_pending_step [of c e jobId vs n "int n * ?I" tr] a r
    have "pollLoop c e jobId vs n (int n * ?I) tr = Some (res, tr')" by simp
    moreover from q have "numQueries tr' + n \<le> numQueries tr + nat (?T div ?I) + 1"
      by (simp add: numQueries_append numQueries_pendingEvents)
    ultimately show ?thesis using v by blast
  qed
qed

text \<open>
  If the loop returns from a state, then from that state on the iterations are pending
  and within the timeout up to one that is not.
\<close>

lemma pollLoop_returns_stops:
  assumes "pollLoop c e jobId vs n timer tr = Some out"
  shows "\<exists>m\<ge>n.
      (\<forall>k. n \<le> k \<and> k < m \<longrightarrow> pendingAt c e jobId vs k
          \<and> timer + (int (k - n) + 1) * transformationJobPollingIntervalSeconds c
              \<le> transformationJobTimeoutSeconds c)
      \<and> \<not> (pendingAt c e jobId vs m
          \<and> timer + (int (m - n) + 1) * transformationJobPollingIntervalSeconds c
              \<le> transformationJobTimeoutSeconds c)"
proof (rule pollLoop.raw_induct [where P = "\<lambda>c e jobId vs n timer tr out. \<exists>m\<ge>n.
      (\<forall>k. n \<le> k \<and> k < m \<longrightarrow> pendingAt c e jobId vs k
          \<and> timer + (int (k - n) + 1) * transformationJobPollingIntervalSeconds c
              \<le> transformationJobTimeoutSeconds c)
      \<and> \<not> (pendingAt c e jobId vs m
          \<and> timer + (int (m - n) + 1) * transformationJobPollingIntervalSeconds c
              \<le> transformationJobTimeoutSeconds c)", OF _ assms], goal_cases)
  case (1 loop c e jobId vs n timer tr out)
  let ?I = "transformationJobPollingIntervalSeconds c" and ?T = "transformationJobTimeoutSeconds c"
  show ?case
  proof (cases "pendingAt c e jobId vs n \<and> timer + ?I \<le> ?T")
    case False
    then have "\<not> (pendingAt c e jobId vs n \<and> timer + (int (n - n) + 1) * ?I \<le> ?T)" by simp
    then show ?thesis by (intro exI [of _ n]) auto
  next
    case True
    then have nc: "\<not> isCancelled e n" and le: "\<not> ?T < timer + ?I"
      by (simp_all add: pendingAt_def)
    from True obtain status where q: "codeModernizerGetCodeTransformation e n jobId = Resolves status"
      and nv: "\<not> arrayIncludes vs status" and nf: "\<not> arrayIncludes (failureStates c) status"
      by (cases "codeModernizerGetCodeTransformation e n jobId") (simp_all add: pendingAt_def)
    from 1(2) have "loop c e jobId vs (Suc n) (timer + ?I)
        (tr @ [ThrowIfCancelled False,
               GetCodeTransformation jobId (codeModernizerGetCodeTransformation e n jobId),
               Sleep (?I * 1000)]) = Some out"
      by (simp add: throwIfCancelled_def nc q nv nf le)
    from 1(1) [OF this] obtain m where m: "Suc n \<le> m"
      and before: "\<forall>k. Suc n \<le> k \<and> k < m \<longrightarrow> pendingAt c e jobId vs k
          \<and> timer + ?I + (int (k - Suc n) + 1) * ?I \<le> ?T"
      and at: "\<not> (pendingAt c e jobId vs m
          \<and> timer + ?I + (int (m - Suc n) + 1) * ?I \<le> ?T)"
      by (elim exE conjE)
    have shift: "timer + ?I + (int (k - Suc n) + 1) * ?I = timer + (int (k - n) + 1) * ?I"
      if "Suc n \<le> k" for k
    proof -
      from that have "int (k - n) = int (k - Suc n) + 1" by simp
      then show ?thesis by (simp add: algebra_simps)
    qed
    have "pendingAt c e jobId vs k \<and> timer + (int (k - n) + 1) * ?I \<le> ?T"
      if "n \<le> k" and "k < m" for k
    proof (cases "k = n")
      case True
      with \<open>pendingAt c e jobId vs n \<and> timer + ?I \<le> ?T\<close> show ?thesis by simp
    next
      case False
      with that have "Suc n \<le> k" by simp
      with before \<open>k < m\<close> have "pendingAt c e jobId vs k
          \<and> timer + ?I + (int (k - Suc n) + 1) * ?I \<le> ?T" by (elim allE [of _ k]) simp
      with shift [OF \<open>Suc n \<le> k\<close>] show ?thesis by simp
    qed
    moreover from at shift [OF m] have "\<not> (pendingAt c e jobId vs m
          \<and> timer + (int (m - n) + 1) * ?I \<le> ?T)" by simp
    moreover from m have "n \<le> m" by simp
    ultimately show ?thesis by (intro exI [of _ m]) simp
  qed
qed

text \<open>
  A call that ends has a first iteration that is not a pending one within the timeout:
  all the iterations before it were, and the claims below say what the call does in
  each of the ways that iteration can go.
\<close>

lemma poll_returns_stops:
  assumes "pollTransformationJob c e jobId vs = Some out"
  shows "\<exists>n. pendingThrough c e jobId vs n
      \<and> \<not> (pendingAt c e jobId vs n
            \<and> (int n + 1) * transformationJobPollingIntervalSeconds c
                \<le> transformationJobTimeoutSeconds c)"
  using pollLoop_returns_stops [OF assms [unfolded pollTransformationJob_def]]
  by (auto simp: pendingThrough_iff)

subsection \<open>The claims about the loop\<close>

text \<open>
  C1. In every call, as soon as a queried status is one of \<open>validStates\<close> the function
  stops polling and returns that status. Iteration \<open>n\<close> is entered exactly when the
  \<open>n\<close> iterations before it observed a pending job within the timeout; if its query
  then resolves to a valid status, the call returns this status, and the query is the
  last effect of the call.
\<close>

theorem poll_returns_first_valid_status:
  assumes "pendingThrough c e jobId validStates n"
    and "\<not> isCancelled e n"
    and "codeModernizerGetCodeTransformation e n jobId = Resolves status"
    and "arrayIncludes validStates status"
  shows "pollTransformationJob c e jobId validStates =
    Some (Inr status,
          pendingTrace c e jobId n @
            [ThrowIfCancelled False, GetCodeTransformation jobId (Resolves status)])"
  unfolding pollLoop_prefix [OF assms(1)]
  using assms(2-4) by (rule pollLoop_valid_step)

theorem poll_returns_first_valid_status_witness:
  "pendingThrough constants0 (scriptedEnv 9 [''TRANSFORMING'', ''TRANSFORMING'', ''COMPLETED''])
      ''job-1'' [''COMPLETED''] 2
   \<and> \<not> isCancelled (scriptedEnv 9 [''TRANSFORMING'', ''TRANSFORMING'', ''COMPLETED'']) 2
   \<and> pollTransformationJob constants0
        (scriptedEnv 9 [''TRANSFORMING'', ''TRANSFORMING'', ''COMPLETED'']) ''job-1'' [''COMPLETED''] =
      Some (Inr (Some ''COMPLETED''),
        [ThrowIfCancelled False, GetCodeTransformation ''job-1'' (Resolves (Some ''TRANSFORMING'')),
         Sleep 5000,
         ThrowIfCancelled False, GetCodeTransformation ''job-1'' (Resolves (Some ''TRANSFORMING'')),
         Sleep 5000,
         ThrowIfCancelled False, GetCodeTransformation ''job-1'' (Resolves (Some ''COMPLETED''))])"
proof -
  let ?e = "scriptedEnv 9 [''TRANSFORMING'', ''TRANSFORMING'', ''COMPLETED'']"
  have p: "pendingThrough constants0 ?e ''job-1'' [''COMPLETED''] 2"
    by (simp add: pendingThrough_iff pendingAt_def constants0_def scriptedEnv_def
        arrayIncludes_def less_Suc_eq numeral_2_eq_2)
  have c: "\<not> isCancelled ?e 2" by (simp add: scriptedEnv_def)
  have q: "codeModernizerGetCodeTransformation ?e 2 ''job-1'' = Resolves (Some ''COMPLETED'')"
    by (simp add: scriptedEnv_def)
  have v: "arrayIncludes [''COMPLETED''] (Some ''COMPLETED'')" by (simp add: arrayIncludes_def)
  have t: "pendingTrace constants0 ?e ''job-1'' 2 =
    [ThrowIfCancelled False, GetCodeTransformation ''job-1'' (Resolves (Some ''TRANSFORMING'')),
     Sleep 5000,
     ThrowIfCancelled False, GetCodeTransformation ''job-1'' (Resolves (Some ''TRANSFORMING'')),
     Sleep 5000]"
    by (simp add: pendingTrace_def pendingEvents_def constants0_def scriptedEnv_def numeral_2_eq_2)
  show ?thesis
    using poll_returns_first_valid_status [OF p c q v] p c t by simp
qed

text \<open>
  C2. A queried status that is one of the failure states, and not one of
  \<open>validStates\<close>, makes the call throw the job-failed error right after that query,
  with no sleep and no further query. A pending status (neither valid nor a failure
  state) within the timeout only leads into the next iteration: the call is the loop
  entered at iteration \<open>n + 1\<close>, after the sleep of iteration \<open>n\<close>.
\<close>

theorem poll_failure_state_throws:
  assumes "pendingThrough c e jobId validStates n"
    and "\<not> isCancelled e n"
    and "codeModernizerGetCodeTransformation e n jobId = Resolves status"
    and "\<not> arrayIncludes validStates status"
  shows "(arrayIncludes (failureStates c) status \<longrightarrow>
      pollTransformationJob c e jobId validStates =
        Some (Inl (Error ''Job failed, not going to retrieve plan''),
              pendingTrace c e jobId n @
                [ThrowIfCancelled False, GetCodeTransformation jobId (Resolves status)]))
    \<and> (\<not> arrayIncludes (failureStates c) status \<longrightarrow>
        (int n + 1) * transformationJobPollingIntervalSeconds c
          \<le> transformationJobTimeoutSeconds c \<longrightarrow>
      pollTransformationJob c e jobId validStates =
        pollLoop c e jobId validStates (Suc n)
          (int (Suc n) * transformationJobPollingIntervalSeconds c)
          (pendingTrace c e jobId n @
             [ThrowIfCancelled False, GetCodeTransformation jobId (Resolves status),
              Sleep (transformationJobPollingIntervalSeconds c * 1000)]))"
proof (intro conjI impI)
  assume "arrayIncludes (failureStates c) status"
  with assms(2-4) show "pollTransformationJob c e jobId validStates =
      Some (Inl (Error ''Job failed, not going to retrieve plan''),
            pendingTrace c e jobId n @
              [ThrowIfCancelled False, GetCodeTransformation jobId (Resolves status)])"
    unfolding pollLoop_prefix [OF assms(1)] by (rule pollLoop_failure_step)
next
  assume nf: "\<not> arrayIncludes (failureStates c) status"
    and t: "(int n + 1) * transformationJobPollingIntervalSeconds c
              \<le> transformationJobTimeoutSeconds c"
  from assms(2-4) nf have a: "pendingAt c e jobId validStates n"
    by (simp add: pendingAt_def)
  with assms(1) t have "pendingThrough c e jobId validStates (Suc n)"
    by (simp add: pendingThrough_Suc)
  from pollLoop_prefix [OF this] assms(3)
  show "pollTransformationJob c e jobId validStates =
      pollLoop c e jobId validStates (Suc n)
        (int (Suc n) * transformationJobPollingIntervalSeconds c)
        (pendingTrace c e jobId n @
           [ThrowIfCancelled False, GetCodeTransformation jobId (Resolves status),
            Sleep (transformationJobPollingIntervalSeconds c * 1000)])"
    by (simp add: pendingTrace_Suc pendingEvents_def)
qed

text \<open>
  Two concrete jobs: one that fails at its second query, and one that is still pending
  at its second query, so that the third iteration is entered.
\<close>

theorem poll_failure_state_throws_witness:
  "(pendingThrough constants0 (scriptedEnv 9 [''TRANSFORMING'', ''FAILED'']) ''job-1'' [''COMPLETED''] 1
    \<and> \<not> isCancelled (scriptedEnv 9 [''TRANSFORMING'', ''FAILED'']) 1
    \<and> codeModernizerGetCodeTransformation (scriptedEnv 9 [''TRANSFORMING'', ''FAILED'']) 1 ''job-1''
        = Resolves (Some ''FAILED'')
    \<and> \<not> arrayIncludes [''COMPLETED''] (Some ''FAILED'')
    \<and> arrayIncludes (failureStates constants0) (Some ''FAILED'')
    \<and> pollTransformationJob constants0 (scriptedEnv 9 [''TRANSFORMING'', ''FAILED''])
          ''job-1'' [''COMPLETED''] =
        Some (Inl (Error ''Job failed, not going to retrieve plan''),
          [ThrowIfCancelled False,
           GetCodeTransformation ''job-1'' (Resolves (Some ''TRANSFORMING'')), Sleep 5000,
           ThrowIfCancelled False,
           GetCodeTransformation ''job-1'' (Resolves (Some ''FAILED''))]))
   \<and> (pendingThrough constants0 (scriptedEnv 9 [''TRANSFORMING'', ''TRANSFORMING'', ''COMPLETED''])
        ''job-1'' [''COMPLETED''] 1
    \<and> \<not> arrayIncludes (failureStates constants0) (Some ''TRANSFORMING'')
    \<and> (int 1 + 1) * transformationJobPollingIntervalSeconds constants0
          \<le> transformationJobTimeoutSeconds constants0
    \<and> pollTransformationJob constants0
          (scriptedEnv 9 [''TRANSFORMING'', ''TRANSFORMING'', ''COMPLETED'']) ''job-1'' [''COMPLETED''] =
        pollLoop constants0 (scriptedEnv 9 [''TRANSFORMING'', ''TRANSFORMING'', ''COMPLETED''])
          ''job-1'' [''COMPLETED''] 2 10
          [ThrowIfCancelled False,
           GetCodeTransformation ''job-1'' (Resolves (Some ''TRANSFORMING'')), Sleep 5000,
           ThrowIfCancelled False,
           GetCodeTransformation ''job-1'' (Resolves (Some ''TRANSFORMING'')), Sleep 5000])"
proof -
  let ?f = "scriptedEnv 9 [''TRANSFORMING'', ''FAILED'']"
  let ?g = "scriptedEnv 9 [''TRANSFORMING'', ''TRANSFORMING'', ''COMPLETED'']"
  have pf: "pendingThrough constants0 ?f ''job-1'' [''COMPLETED''] 1"
    by (simp add: pendingThrough_iff pendingAt_def constants0_def scriptedEnv_def arrayIncludes_def)
  have cf: "\<not> isCancelled ?f 1" by (simp add: scriptedEnv_def)
  have qf: "codeModernizerGetCodeTransformation ?f 1 ''job-1'' = Resolves (Some ''FAILED'')"
    by (simp add: scriptedEnv_def)
  have vf: "\<not> arrayIncludes [''COMPLETED''] (Some ''FAILED'')" by (simp add: arrayIncludes_def)
  have ff: "arrayIncludes (failureStates constants0) (Some ''FAILED'')"
    by (simp add: arrayIncludes_def constants0_def)
  have tf: "pendingTrace constants0 ?f ''job-1'' 1 =
      [ThrowIfCancelled False,
       GetCodeTransformation ''job-1'' (Resolves (Some ''TRANSFORMING'')), Sleep 5000]"
    by (simp add: pendingTrace_def pendingEvents_def constants0_def scriptedEnv_def)
  have pg: "pendingThrough constants0 ?g ''job-1'' [''COMPLETED''] 1"
    by (simp add: pendingThrough_iff pendingAt_def constants0_def scriptedEnv_def arrayIncludes_def)
  have cg: "\<not> isCancelled ?g 1" by (simp add: scriptedEnv_def)
  have qg: "codeModernizerGetCodeTransformation ?g 1 ''job-1'' = Resolves (Some ''TRANSFORMING'')"
    by (simp add: scriptedEnv_def)
  have vg: "\<not> arrayIncludes [''COMPLETED''] (Some ''TRANSFORMING'')"
    by (simp add: arrayIncludes_def)
  have fg: "\<not> arrayIncludes (failureStates constants0) (Some ''TRANSFORMING'')"
    by (simp add: arrayIncludes_def constants0_def)
  have ig: "(int 1 + 1) * transformationJobPollingIntervalSeconds constants0
      \<le> transformationJobTimeoutSeconds constants0"
    by (simp add: constants0_def)
  have tg: "pendingTrace constants0 ?g ''job-1'' 1 =
      [ThrowIfCancelled False,
       GetCodeTransformation ''job-1'' (Resolves (Some ''TRANSFORMING'')), Sleep 5000]"
    by (simp add: pendingTrace_def pendingEvents_def constants0_def scriptedEnv_def)
  have k: "transformationJobPollingIntervalSeconds constants0 = 5" by (simp add: constants0_def)
  from poll_failure_state_throws [OF pf cf qf vf] ff tf
  have 1: "pollTransformationJob constants0 ?f ''job-1'' [''COMPLETED''] =
        Some (Inl (Error ''Job failed, not going to retrieve plan''),
          [ThrowIfCancelled False,
           GetCodeTransformation ''job-1'' (Resolves (Some ''TRANSFORMING'')), Sleep 5000,
           ThrowIfCancelled False,
           GetCodeTransformation ''job-1'' (Resolves (Some ''FAILED''))])"
    by simp
  from poll_failure_state_throws [OF pg cg qg vg] fg ig tg k
  have 2: "pollTransformationJob constants0 ?g ''job-1'' [''COMPLETED''] =
        pollLoop constants0 ?g ''job-1'' [''COMPLETED''] 2 10
          [ThrowIfCancelled False,
           GetCodeTransformation ''job-1'' (Resolves (Some ''TRANSFORMING'')), Sleep 5000,
           ThrowIfCancelled False,
           GetCodeTransformation ''job-1'' (Resolves (Some ''TRANSFORMING'')), Sleep 5000]"
    by (simp add: numeral_2_eq_2)
  from pf cf qf vf ff 1 pg fg ig 2 show ?thesis by blast
qed

text \<open>
  C3. Every iteration that observes a pending status sleeps the polling interval and
  adds it to the timer, which therefore stands at \<open>n + 1\<close> intervals after iteration
  \<open>n\<close>. The first time this exceeds \<open>transformationJobTimeoutSeconds\<close> the call
  throws the timeout error: the sleep of that iteration is its last effect, and the
  \<open>n + 1\<close> queries of the pending iterations are all the queries it made.
\<close>

theorem poll_times_out:
  assumes "pendingThrough c e jobId validStates n"
    and "pendingAt c e jobId validStates n"
    and "transformationJobTimeoutSeconds c
          < (int n + 1) * transformationJobPollingIntervalSeconds c"
  shows "pollTransformationJob c e jobId validStates =
      Some (Inl (Error ''Transform by Q timed out''),
            pendingTrace c e jobId n @
              [ThrowIfCancelled False,
               GetCodeTransformation jobId (codeModernizerGetCodeTransformation e n jobId),
               Sleep (transformationJobPollingIntervalSeconds c * 1000)])
    \<and> numQueries (pendingTrace c e jobId n @
              [ThrowIfCancelled False,
               GetCodeTransformation jobId (codeModernizerGetCodeTransformation e n jobId),
               Sleep (transformationJobPollingIntervalSeconds c * 1000)]) = n + 1"
proof
  from assms(3) have "transformationJobTimeoutSeconds c
      < int n * transformationJobPollingIntervalSeconds c
        + transformationJobPollingIntervalSeconds c"
    by (simp add: algebra_simps)
  with assms(2) show "pollTransformationJob c e jobId validStates =
      Some (Inl (Error ''Transform by Q timed out''),
            pendingTrace c e jobId n @
              [ThrowIfCancelled False,
               GetCodeTransformation jobId (codeModernizerGetCodeTransformation e n jobId),
               Sleep (transformationJobPollingIntervalSeconds c * 1000)])"
    unfolding pollLoop_prefix [OF assms(1)]
    by (simp add: pollLoop_timeout_step pendingEvents_def)
next
  show "numQueries (pendingTrace c e jobId n @
              [ThrowIfCancelled False,
               GetCodeTransformation jobId (codeModernizerGetCodeTransformation e n jobId),
               Sleep (transformationJobPollingIntervalSeconds c * 1000)]) = n + 1"
    by (simp add: numQueries_append numQueries_pendingTrace) (simp add: numQueries_def)
qed

theorem poll_times_out_witness:
  "pendingThrough constants0 (scriptedEnv 9 [''TRANSFORMING'', ''TRANSFORMING'', ''TRANSFORMING''])
      ''job-1'' [''COMPLETED''] 2
   \<and> pendingAt constants0 (scriptedEnv 9 [''TRANSFORMING'', ''TRANSFORMING'', ''TRANSFORMING''])
      ''job-1'' [''COMPLETED''] 2
   \<and> transformationJobTimeoutSeconds constants0
        < (int 2 + 1) * transformationJobPollingIntervalSeconds constants0
   \<and> pollTransformationJob constants0
        (scriptedEnv 9 [''TRANSFORMING'', ''TRANSFORMING'', ''TRANSFORMING'']) ''job-1'' [''COMPLETED''] =
      Some (Inl (Error ''Transform by Q timed out''),
        [ThrowIfCancelled False,
         GetCodeTransformation ''job-1'' (Resolves (Some ''TRANSFORMING'')), Sleep 5000,
         ThrowIfCancelled False,
         GetCodeTransformation ''job-1'' (Resolves (Some ''TRANSFORMING'')), Sleep 5000,
         ThrowIfCancelled False,
         GetCodeTransformation ''job-1'' (Resolves (Some ''TRANSFORMING'')), Sleep 5000])"
proof -
  let ?e = "scriptedEnv 9 [''TRANSFORMING'', ''TRANSFORMING'', ''TRANSFORMING'']"
  have p: "pendingThrough constants0 ?e ''job-1'' [''COMPLETED''] 2"
    by (simp add: pendingThrough_iff pendingAt_def constants0_def scriptedEnv_def
        arrayIncludes_def less_Suc_eq numeral_2_eq_2)
  have a: "pendingAt constants0 ?e ''job-1'' [''COMPLETED''] 2"
    by (simp add: pendingAt_def constants0_def scriptedEnv_def arrayIncludes_def)
  have t: "transformationJobTimeoutSeconds constants0
      < (int 2 + 1) * transformationJobPollingIntervalSeconds constants0"
    by (simp add: constants0_def)
  have tr: "pendingTrace constants0 ?e ''job-1'' 2 =
    [ThrowIfCancelled False, GetCodeTransformation ''job-1'' (Resolves (Some ''TRANSFORMING'')),
     Sleep 5000,
     ThrowIfCancelled False, GetCodeTransformation ''job-1'' (Resolves (Some ''TRANSFORMING'')),
     Sleep 5000]"
    by (simp add: pendingTrace_def pendingEvents_def constants0_def scriptedEnv_def numeral_2_eq_2)
  have q: "codeModernizerGetCodeTransformation ?e 2 ''job-1'' = Resolves (Some ''TRANSFORMING'')"
    by (simp add: scriptedEnv_def)
  have k: "transformationJobPollingIntervalSeconds constants0 = 5" by (simp add: constants0_def)
  show ?thesis
    using poll_times_out [OF p a t] p a t tr q k by simp
qed

text \<open>
  C4. Every iteration opens with the cancellation check, before its status query. If the
  transformation counts as cancelled at the check of iteration \<open>n\<close>, the call throws
  \<open>TransformByQStoppedError\<close> there: the check is its last effect, so the \<open>n\<close>
  queries of the earlier iterations are the only ones, and none follows the cancellation.
\<close>

theorem poll_cancelled_stops_before_query:
  assumes "pendingThrough c e jobId validStates n"
    and "isCancelled e n"
  shows "pollTransformationJob c e jobId validStates =
      Some (Inl TransformByQStoppedError, pendingTrace c e jobId n @ [ThrowIfCancelled True])
    \<and> numQueries (pendingTrace c e jobId n @ [ThrowIfCancelled True]) = n"
proof
  from assms(2) show "pollTransformationJob c e jobId validStates =
      Some (Inl TransformByQStoppedError, pendingTrace c e jobId n @ [ThrowIfCancelled True])"
    unfolding pollLoop_prefix [OF assms(1)] by (rule pollLoop_cancelled_step)
next
  show "numQueries (pendingTrace c e jobId n @ [ThrowIfCancelled True]) = n"
    by (simp add: numQueries_append numQueries_pendingTrace) (simp add: numQueries_def)
qed

theorem poll_cancelled_stops_before_query_witness:
  "pendingThrough constants0 (scriptedEnv 1 [''TRANSFORMING'', ''COMPLETED''])
      ''job-1'' [''COMPLETED''] 1
   \<and> isCancelled (scriptedEnv 1 [''TRANSFORMING'', ''COMPLETED'']) 1
   \<and> pollTransformationJob constants0 (scriptedEnv 1 [''TRANSFORMING'', ''COMPLETED''])
        ''job-1'' [''COMPLETED''] =
      Some (Inl TransformByQStoppedError,
        [ThrowIfCancelled False,
         GetCodeTransformation ''job-1'' (Resolves (Some ''TRANSFORMING'')), Sleep 5000,
         ThrowIfCancelled True])"
proof -
  let ?e = "scriptedEnv 1 [''TRANSFORMING'', ''COMPLETED'']"
  have p: "pendingThrough constants0 ?e ''job-1'' [''COMPLETED''] 1"
    by (simp add: pendingThrough_iff pendingAt_def constants0_def scriptedEnv_def arrayIncludes_def)
  have c: "isCancelled ?e 1" by (simp add: scriptedEnv_def)
  have tr: "pendingTrace constants0 ?e ''job-1'' 1 =
    [ThrowIfCancelled False, GetCodeTransformation ''job-1'' (Resolves (Some ''TRANSFORMING'')),
     Sleep 5000]"
    by (simp add: pendingTrace_def pendingEvents_def constants0_def scriptedEnv_def)
  show ?thesis
    using poll_cancelled_stops_before_query [OF p c] p c tr by simp
qed

text \<open>
  C5. With a positive polling interval and a timeout that is not negative, every call
  ends, whatever the surroundings answer: it returns a status, which then is one of
  \<open>validStates\<close>, or throws, after at most
  \<open>floor (transformationJobTimeoutSeconds / transformationJobPollingIntervalSeconds) + 1\<close>
  status queries.
\<close>

theorem poll_terminates_within_bound:
  assumes "0 < transformationJobPollingIntervalSeconds c"
    and "0 \<le> transformationJobTimeoutSeconds c"
  shows "\<exists>res tr. pollTransformationJob c e jobId validStates = Some (res, tr)
    \<and> numQueries tr \<le>
        nat (transformationJobTimeoutSeconds c div transformationJobPollingIntervalSeconds c) + 1
    \<and> (\<forall>status. res = Inr status \<longrightarrow> arrayIncludes validStates status)"
  using pollLoop_terminates [OF assms(1) refl, of 0 e jobId validStates "[]"] assms(2)
  by (simp add: pollTransformationJob_def numQueries_def)

theorem poll_terminates_within_bound_witness:
  "0 < transformationJobPollingIntervalSeconds constants0
   \<and> 0 \<le> transformationJobTimeoutSeconds constants0
   \<and> (\<exists>tr. pollTransformationJob constants0 (scriptedEnv 9 [''TRANSFORMING'', ''COMPLETED''])
            ''job-1'' [''COMPLETED''] = Some (Inr (Some ''COMPLETED''), tr)
          \<and> numQueries tr \<le> 3
          \<and> arrayIncludes [''COMPLETED''] (Some ''COMPLETED''))"
proof -
  let ?e = "scriptedEnv 9 [''TRANSFORMING'', ''COMPLETED'']"
  have i: "0 < transformationJobPollingIntervalSeconds constants0" by (simp add: constants0_def)
  have t: "0 \<le> transformationJobTimeoutSeconds constants0" by (simp add: constants0_def)
  have b: "nat (transformationJobTimeoutSeconds constants0
      div transformationJobPollingIntervalSeconds constants0) + 1 = 3"
    by (simp add: constants0_def)
  have p: "pendingThrough constants0 ?e ''job-1'' [''COMPLETED''] 1"
    by (simp add: pendingThrough_iff pendingAt_def constants0_def scriptedEnv_def arrayIncludes_def)
  have "pollLoop constants0 ?e ''job-1'' [''COMPLETED''] 1 timer tr =
      Some (Inr (Some ''COMPLETED''),
        tr @ [ThrowIfCancelled False, GetCodeTransformation ''job-1'' (Resolves (Some ''COMPLETED''))])"
    for timer tr
    by (rule pollLoop_valid_step) (simp_all add: scriptedEnv_def arrayIncludes_def)
  with pollLoop_prefix [OF p]
  have r: "\<exists>tr. pollTransformationJob constants0 ?e ''job-1'' [''COMPLETED'']
      = Some (Inr (Some ''COMPLETED''), tr)"
    by simp
  from poll_terminates_within_bound [OF i t, of ?e "''job-1''" "[''COMPLETED'']"] r b
  have "\<exists>tr. pollTransformationJob constants0 ?e ''job-1'' [''COMPLETED'']
        = Some (Inr (Some ''COMPLETED''), tr)
      \<and> numQueries tr \<le> 3 \<and> arrayIncludes [''COMPLETED''] (Some ''COMPLETED'')"
    by auto
  with i t show ?thesis by blast
qed

text \<open>
  C9. Membership in \<open>validStates\<close> is tested first: a queried status that is both one
  of \<open>validStates\<close> and one of the failure states is returned, and the job-failed
  error is not thrown.
\<close>

theorem poll_valid_before_failure:
  assumes "pendingThrough c e jobId validStates n"
    and "\<not> isCancelled e n"
    and "codeModernizerGetCodeTransformation e n jobId = Resolves (Some s)"
    and "s \<in> set validStates"
    and "s \<in> set (failureStates c)"
  shows "pollTransformationJob c e jobId validStates =
    Some (Inr (Some s),
          pendingTrace c e jobId n @
            [ThrowIfCancelled False, GetCodeTransformation jobId (Resolves (Some s))])"
proof -
  from assms(4) have "arrayIncludes validStates (Some s)" by (simp add: arrayIncludes_def)
  with assms(2,3) show ?thesis
    unfolding pollLoop_prefix [OF assms(1)] by (rule pollLoop_valid_step)
qed

theorem poll_valid_before_failure_witness:
  "pendingThrough constants0 (scriptedEnv 9 [''TRANSFORMING'', ''STOPPED''])
      ''job-1'' [''COMPLETED'', ''STOPPED''] 1
   \<and> \<not> isCancelled (scriptedEnv 9 [''TRANSFORMING'', ''STOPPED'']) 1
   \<and> ''STOPPED'' \<in> set [''COMPLETED'', ''STOPPED'']
   \<and> ''STOPPED'' \<in> set (failureStates constants0)
   \<and> pollTransformationJob constants0 (scriptedEnv 9 [''TRANSFORMING'', ''STOPPED''])
        ''job-1'' [''COMPLETED'', ''STOPPED''] =
      Some (Inr (Some ''STOPPED''),
        [ThrowIfCancelled False,
         GetCodeTransformation ''job-1'' (Resolves (Some ''TRANSFORMING'')), Sleep 5000,
         ThrowIfCancelled False,
         GetCodeTransformation ''job-1'' (Resolves (Some ''STOPPED''))])"
proof -
  let ?e = "scriptedEnv 9 [''TRANSFORMING'', ''STOPPED'']"
  have p: "pendingThrough constants0 ?e ''job-1'' [''COMPLETED'', ''STOPPED''] 1"
    by (simp add: pendingThrough_iff pendingAt_def constants0_def scriptedEnv_def arrayIncludes_def)
  have c: "\<not> isCancelled ?e 1" by (simp add: scriptedEnv_def)
  have q: "codeModernizerGetCodeTransformation ?e 1 ''job-1'' = Resolves (Some ''STOPPED'')"
    by (simp add: scriptedEnv_def)
  have v: "''STOPPED'' \<in> set [''COMPLETED'', ''STOPPED'']" by simp
  have f: "''STOPPED'' \<in> set (failureStates constants0)" by (simp add: constants0_def)
  have tr: "pendingTrace constants0 ?e ''job-1'' 1 =
    [ThrowIfCancelled False, GetCodeTransformation ''job-1'' (Resolves (Some ''TRANSFORMING'')),
     Sleep 5000]"
    by (simp add: pendingTrace_def pendingEvents_def constants0_def scriptedEnv_def)
  show ?thesis
    using poll_valid_before_failure [OF p c q v f] p c v f tr by simp
qed

section \<open>Sessions of the authentication provider\<close>

subsection \<open>The text of a number determines the number\<close>

lemma digitChar_inject:
  assumes "a < 10" and "b < 10"
  shows "digitChar a = digitChar b \<longleftrightarrow> a = b"
proof -
  have d: "distinct ''0123456789''" by simp
  have l: "length ''0123456789'' = 10" by simp
  from assms show ?thesis
    unfolding digitChar_def by (simp only: nth_eq_iff_index_eq [OF d] l)
qed

lemma numberToString_small: "n < 10 \<Longrightarrow> numberToString n = [digitChar n]"
  by (subst numberToString.simps) simp

lemma numberToString_large:
  "\<not> n < 10 \<Longrightarrow> numberToString n = numberToString (n div 10) @ [digitChar (n mod 10)]"
  by (subst numberToString.simps) simp

lemma numberToString_not_Nil: "numberToString n \<noteq> []"
  by (subst numberToString.simps) simp

lemma numberToString_inject: "numberToString n = numberToString m \<Longrightarrow> n = m"
proof (induction n arbitrary: m rule: numberToString.induct)
  case (1 n)
  show ?case
  proof (cases "n < 10")
    case True
    show ?thesis
    proof (cases "m < 10")
      case True
      with \<open>n < 10\<close> "1.prems" show ?thesis
        by (simp only: numberToString_small digitChar_inject list.inject)
    next
      case mf: False
      from "1.prems" have "[digitChar n] = numberToString (m div 10) @ [digitChar (m mod 10)]"
        unfolding numberToString_small [OF True] numberToString_large [OF mf] .
      with numberToString_not_Nil [of "m div 10"] show ?thesis by simp
    qed
  next
    case False
    show ?thesis
    proof (cases "m < 10")
      case True
      from "1.prems" have "numberToString (n div 10) @ [digitChar (n mod 10)] = [digitChar m]"
        unfolding numberToString_small [OF True] numberToString_large [OF False] .
      with numberToString_not_Nil [of "n div 10"] show ?thesis by simp
    next
      case mf: False
      from "1.prems"
      have "numberToString (n div 10) @ [digitChar (n mod 10)]
        = numberToString (m div 10) @ [digitChar (m mod 10)]"
        unfolding numberToString_large [OF False] numberToString_large [OF mf] .
      then have "numberToString (n div 10) = numberToString (m div 10)"
        and dd: "digitChar (n mod 10) = digitChar (m mod 10)"
        by simp_all
      with "1.IH" [OF False] have q: "n div 10 = m div 10" by blast
      from dd have r: "n mod 10 = m mod 10" by (simp add: digitChar_inject)
      have "n = n div 10 * 10 + n mod 10" by simp
      also have "\<dots> = m div 10 * 10 + m mod 10" by (simp only: q r)
      also have "\<dots> = m" by simp
      finally show ?thesis .
    qed
  qed
qed

subsection \<open>The invariant\<close>

lemma plusOne_below: "n < 2 ^ 53 \<Longrightarrow> plusOne n = n + 1"
  by (simp add: plusOne_def)

lemma plusOne_ge: "n \<le> plusOne n"
  by (simp add: plusOne_def)

lemma plusOne_bounded: "n \<le> 2 ^ 53 \<Longrightarrow> plusOne n \<le> 2 ^ 53"
  by (simp add: plusOne_def)

lemma plusOne_pos: "1 \<le> plusOne n"
  by (simp add: plusOne_def)

lemma issued_mono: "issued p i \<Longrightarrow> sessionCounter p \<le> sessionCounter p' \<Longrightarrow> issued p' i"
  unfolding issued_def by (blast intro: le_trans)

text \<open>What \<open>login\<close> does to the provider, in its two outcomes.\<close>

lemma login_Inl:
  "login getUser p account = (p', Inl err) \<Longrightarrow>
    sessions p' = sessions p \<and> sessionCounter p' = sessionCounter p \<and> fired p' = fired p"
  by (auto simp: login_def split: sum.splits)

lemma login_Inr:
  "login getUser p account = (p', Inr s) \<Longrightarrow>
    sessions p' = sessions p \<and> fired p' = fired p
    \<and> sessionCounter p' = plusOne (sessionCounter p)
    \<and> id_session s = ''session-'' @ numberToString (plusOne (sessionCounter p))"
  by (auto simp: login_def split: sum.splits)

lemma createSession_Inl:
  "createSession getUser p account = (p', Inl err) \<Longrightarrow>
    sessions p' = sessions p \<and> sessionCounter p' = sessionCounter p \<and> fired p' = fired p"
  by (auto simp: createSession_def split: prod.splits sum.splits dest: login_Inl)

lemma createSession_Inr:
  "createSession getUser p account = (p', Inr s) \<Longrightarrow>
    sessions p' = (sessions p)(id_session s \<mapsto> s) \<and> fired p' = fired p @ [Added s]
    \<and> sessionCounter p' = plusOne (sessionCounter p)
    \<and> id_session s = ''session-'' @ numberToString (plusOne (sessionCounter p))"
  by (auto simp: createSession_def split: prod.splits sum.splits dest: login_Inr)

lemma idsIssued_createSession:
  assumes "idsIssued p"
  shows "idsIssued (fst (createSession getUser p account))"
proof (cases "createSession getUser p account")
  case (Pair p' r)
  show ?thesis
  proof (cases r)
    case (Inl err)
    with Pair have "sessions p' = sessions p" "sessionCounter p' = sessionCounter p"
      "fired p' = fired p"
      by (auto dest: createSession_Inl)
    with assms Pair show ?thesis by (simp add: idsIssued_def issued_def)
  next
    case (Inr s)
    with Pair have s: "sessions p' = (sessions p)(id_session s \<mapsto> s)"
      and f: "fired p' = fired p @ [Added s]"
      and c: "sessionCounter p' = plusOne (sessionCounter p)"
      and i: "id_session s = ''session-'' @ numberToString (plusOne (sessionCounter p))"
      by (auto dest: createSession_Inr)
    have le: "sessionCounter p \<le> sessionCounter p'" by (simp add: c plusOne_ge)
    have new: "issued p' (id_session s)"
      unfolding issued_def using c i plusOne_pos [of "sessionCounter p"] by auto
    have old: "issued p' j" if "issued p j" for j
      using that le by (rule issued_mono)
    from assms have "sessionCounter p \<le> 2 ^ 53" unfolding idsIssued_def by (rule conjunct1)
    then have "sessionCounter p' \<le> 2 ^ 53" unfolding c by (rule plusOne_bounded)
    moreover have "issued p' j" if "sessions p' j = Some t" for j t
      using that assms new old by (auto simp: s idsIssued_def split: if_splits)
    moreover have "issued p' (id_session t)" if "Added t \<in> set (fired p')" for t
      using that assms new old by (auto simp: f idsIssued_def)
    ultimately show ?thesis using Pair by (simp add: idsIssued_def)
  qed
qed

lemma idsIssued_reachable: "reachable getUser p \<Longrightarrow> idsIssued p"
proof (induction rule: reachable.induct)
  case (constructed st)
  show ?case by (simp add: idsIssued_def newProvider_def)
next
  case (account_created p cookie)
  then show ?case
    by (auto simp: idsIssued_def issued_def createAccount_def split: sum.splits)
next
  case (session_created p account)
  from session_created.IH show ?case by (rule idsIssued_createSession)
next
  case (session_deleted p s)
  then show ?case
    by (auto simp: idsIssued_def issued_def deleteSession_def split: option.splits if_splits)
next
  case (storage_changed p st)
  then show ?case by (simp add: idsIssued_def issued_def)
qed

lemma issued_not_next:
  assumes "issued p i" and "sessionCounter p < 2 ^ 53"
  shows "i \<noteq> ''session-'' @ numberToString (plusOne (sessionCounter p))"
proof
  assume e: "i = ''session-'' @ numberToString (plusOne (sessionCounter p))"
  from assms(1) obtain k where k: "k \<le> sessionCounter p"
    and i: "i = ''session-'' @ numberToString k"
    by (auto simp: issued_def)
  from e i have "numberToString k = numberToString (plusOne (sessionCounter p))" by simp
  then have "k = plusOne (sessionCounter p)" by (rule numberToString_inject)
  with k assms(2) show False by (simp add: plusOne_below)
qed

subsection \<open>The claim about session ids\<close>

text \<open>
  C10. A session created by \<open>createSession\<close> gets the id \<open>session-N\<close>, where \<open>N\<close>
  is the provider's counter after it went up by one. In every state that a provider
  instance reaches while its counter is exact (below \<open>2^53\<close>), this id differs from
  the id of every session the provider created before, and is not a key of the
  sessions map, so that the insertion adds an entry and overwrites none.
\<close>

theorem createSession_fresh_id:
  assumes "reachable getUser p"
    and "sessionCounter p < 2 ^ 53"
    and "createSession getUser p account = (p', Inr s)"
  shows "sessionCounter p' = sessionCounter p + 1
    \<and> id_session s = ''session-'' @ numberToString (sessionCounter p')
    \<and> (\<forall>t. Added t \<in> set (fired p) \<longrightarrow> id_session t \<noteq> id_session s)
    \<and> sessions p (id_session s) = None
    \<and> sessions p' = (sessions p)(id_session s \<mapsto> s)
    \<and> fired p' = fired p @ [Added s]"
proof -
  from assms(1) have inv: "idsIssued p" by (rule idsIssued_reachable)
  from assms(3) have s: "sessions p' = (sessions p)(id_session s \<mapsto> s)"
    and f: "fired p' = fired p @ [Added s]"
    and c: "sessionCounter p' = plusOne (sessionCounter p)"
    and i: "id_session s = ''session-'' @ numberToString (plusOne (sessionCounter p))"
    by (auto dest: createSession_Inr)
  have fresh: "j \<noteq> id_session s" if "issued p j" for j
    using issued_not_next [OF that assms(2)] by (simp add: i)
  have "sessionCounter p' = sessionCounter p + 1"
    using c assms(2) by (simp add: plusOne_below)
  moreover have "id_session s = ''session-'' @ numberToString (sessionCounter p')"
    by (simp add: i c)
  moreover have "\<forall>t. Added t \<in> set (fired p) \<longrightarrow> id_session t \<noteq> id_session s"
    using inv fresh by (auto simp: idsIssued_def)
  moreover have "sessions p (id_session s) = None"
  proof (cases "sessions p (id_session s)")
    case None
    then show ?thesis .
  next
    case (Some t)
    with inv have "issued p (id_session s)" by (auto simp: idsIssued_def)
    with fresh show ?thesis by blast
  qed
  ultimately show ?thesis using s f by blast
qed

text \<open>
  The second session of a new provider: the first one, \<open>session-1\<close>, is in the map
  and the second gets \<open>session-2\<close>.
\<close>

theorem createSession_fresh_id_witness:
  "reachable getUser0
      (fst (createSession getUser0 (newProvider storage0) \<lparr>id_account = ''alice'', label = ''alice''\<rparr>))
   \<and> sessionCounter
        (fst (createSession getUser0 (newProvider storage0) \<lparr>id_account = ''alice'', label = ''alice''\<rparr>))
      < 2 ^ 53
   \<and> (\<exists>p' s.
        createSession getUser0
          (fst (createSession getUser0 (newProvider storage0) \<lparr>id_account = ''alice'', label = ''alice''\<rparr>))
          \<lparr>id_account = ''alice'', label = ''alice''\<rparr> = (p', Inr s)
        \<and> id_session s = ''session-2''
        \<and> sessionCounter p' = 2
        \<and> sessions
            (fst (createSession getUser0 (newProvider storage0) \<lparr>id_account = ''alice'', label = ''alice''\<rparr>))
            ''session-2'' = None
        \<and> sessions p' ''session-1'' \<noteq> None)"
proof -
  let ?a = "\<lparr>id_account = ''alice'', label = ''alice''\<rparr>"
  let ?p1 = "fst (createSession getUser0 (newProvider storage0) ?a)"
  have r: "reachable getUser0 ?p1"
    by (rule reachable.session_created) (rule reachable.constructed)
  have c1: "sessionCounter ?p1 = 1"
    by (simp add: createSession_def login_def getSecret_def newProvider_def storage0_def
        getUser0_def SECRETS_KEY_def plusOne_def)
  then have b: "sessionCounter ?p1 < 2 ^ 53" by simp
  have s1: "sessions ?p1 ''session-1'' \<noteq> None"
    by (simp add: createSession_def login_def getSecret_def newProvider_def storage0_def
        getUser0_def SECRETS_KEY_def plusOne_def digitChar_def numberToString_small)
  have g: "getSecret (storage ?p1) ''alice'' = Inr ''cookie-1''"
    by (simp add: createSession_def login_def getSecret_def newProvider_def storage0_def
        getUser0_def SECRETS_KEY_def updateUser_def)
  obtain p' r' where e: "createSession getUser0 ?p1 ?a = (p', r')" by (cases "createSession getUser0 ?p1 ?a")
  from g obtain s where rs: "r' = Inr s"
    using e by (auto simp: createSession_def login_def getUser0_def split: sum.splits prod.splits)
  have two: "numberToString 2 = ''2''"
    by (simp add: numberToString_small digitChar_def)
  note fresh = createSession_fresh_id [OF r b e [unfolded rs]]
  from fresh have n: "sessionCounter p' = 2" by (simp add: c1)
  from fresh have "id_session s = ''session-'' @ numberToString (sessionCounter p')" by blast
  then have i: "id_session s = ''session-2''" by (simp only: n two) simp
  from fresh have "sessions ?p1 (id_session s) = None" by blast
  then have k: "sessions ?p1 ''session-2'' = None" by (simp only: i)
  from fresh have "sessions p' = (sessions ?p1)(id_session s \<mapsto> s)" by blast
  then have "sessions p' ''session-1'' = sessions ?p1 ''session-1''" by (simp add: i)
  with s1 have o: "sessions p' ''session-1'' \<noteq> None" by simp
  from r b e rs i n k o show ?thesis by blast
qed

section \<open>Uploading the payload\<close>

lemma getSha256_Some:
  "files u fileName = Some content \<Longrightarrow> getSha256 u fileName = Inr (sha256Base64 u content)"
  by (simp add: getSha256_def readFileSync_def)

text \<open>
  With the file on disk, \<open>uploadArtifactToS3\<close> makes exactly one request: a PUT of the
  file's content to the upload URL, with the digest of that content as checksum header.
\<close>

lemma uploadArtifactToS3_request:
  assumes "files u fileName = Some content"
  shows "\<exists>res headers.
      uploadArtifactToS3 u fileName resp = (res, [Fetch ''PUT'' (uploadUrl resp) content headers])
      \<and> map_of headers ''x-amz-checksum-sha256'' = Some (sha256Base64 u content)
      \<and> map_of headers ''Content-Type'' = Some ''application/zip''"
  using assms
  by (auto simp: uploadArtifactToS3_def getSha256_Some readFileSync_def Let_def
      split: sum.splits option.splits)

text \<open>
  C7. The archive is checksummed before it is uploaded. For a payload file on disk,
  \<open>uploadPayload\<close> first asks for the upload URL with the base64 SHA-256 digest of
  the file's content as \<open>contentChecksum\<close>; once that call resolves, the only other
  call is the PUT of \<open>uploadArtifactToS3\<close> to the URL handed out, whose body is the
  same content and whose \<open>x-amz-checksum-sha256\<close> header is the same digest.
\<close>

theorem uploadPayload_checksum:
  assumes "files u payloadFileName = Some content"
    and "createUploadUrl u \<lparr>contentChecksum = sha256Base64 u content,
           contentChecksumType_request = contentChecksumType c,
           uploadIntent_request = uploadIntent c\<rparr> = Inr resp"
  shows "\<exists>res headers.
      uploadPayload c u payloadFileName =
        (res, [CreateUploadUrl \<lparr>contentChecksum = sha256Base64 u content,
                  contentChecksumType_request = contentChecksumType c,
                  uploadIntent_request = uploadIntent c\<rparr>,
               Fetch ''PUT'' (uploadUrl resp) content headers])
      \<and> map_of headers ''x-amz-checksum-sha256'' = Some (sha256Base64 u content)"
proof -
  from uploadArtifactToS3_request [OF assms(1), of resp]
  obtain res headers where
    a: "uploadArtifactToS3 u payloadFileName resp
          = (res, [Fetch ''PUT'' (uploadUrl resp) content headers])"
    and h: "map_of headers ''x-amz-checksum-sha256'' = Some (sha256Base64 u content)"
    by blast
  from a assms(2) have "\<exists>res'. uploadPayload c u payloadFileName =
        (res', [CreateUploadUrl \<lparr>contentChecksum = sha256Base64 u content,
                  contentChecksumType_request = contentChecksumType c,
                  uploadIntent_request = uploadIntent c\<rparr>,
                Fetch ''PUT'' (uploadUrl resp) content headers])"
    by (cases res) (simp_all add: uploadPayload_def getSha256_Some [OF assms(1)])
  with h show ?thesis by blast
qed

theorem uploadPayload_checksum_witness:
  "files uploadEnv0 ''/tmp/zipped-code.zip'' = Some ''PK-bytes''
   \<and> createUploadUrl uploadEnv0
        \<lparr>contentChecksum = sha256Base64 uploadEnv0 ''PK-bytes'',
         contentChecksumType_request = contentChecksumType constants0,
         uploadIntent_request = uploadIntent constants0\<rparr>
      = Inr \<lparr>uploadId = ''upload-1'', uploadUrl = ''https://bucket.example/key'', kmsKeyArn = None\<rparr>
   \<and> uploadPayload constants0 uploadEnv0 ''/tmp/zipped-code.zip'' =
      (Inr ''upload-1'',
       [CreateUploadUrl \<lparr>contentChecksum = ''digest-of-PK-bytes'',
           contentChecksumType_request = ''SHA_256'', uploadIntent_request = ''TRANSFORMATION''\<rparr>,
        Fetch ''PUT'' ''https://bucket.example/key'' ''PK-bytes''
          [(''x-amz-checksum-sha256'', ''digest-of-PK-bytes''),
           (''Content-Type'', ''application/zip'')]])"
proof -
  have f: "files uploadEnv0 ''/tmp/zipped-code.zip'' = Some ''PK-bytes''"
    by (simp add: uploadEnv0_def)
  have r: "createUploadUrl uploadEnv0
        \<lparr>contentChecksum = sha256Base64 uploadEnv0 ''PK-bytes'',
         contentChecksumType_request = contentChecksumType constants0,
         uploadIntent_request = uploadIntent constants0\<rparr>
      = Inr \<lparr>uploadId = ''upload-1'', uploadUrl = ''https://bucket.example/key'', kmsKeyArn = None\<rparr>"
    by (simp add: uploadEnv0_def)
  from uploadPayload_checksum [OF f r]
  obtain res headers where
    "uploadPayload constants0 uploadEnv0 ''/tmp/zipped-code.zip'' =
        (res, [CreateUploadUrl \<lparr>contentChecksum = sha256Base64 uploadEnv0 ''PK-bytes'',
                  contentChecksumType_request = contentChecksumType constants0,
                  uploadIntent_request = uploadIntent constants0\<rparr>,
               Fetch ''PUT'' ''https://bucket.example/key'' ''PK-bytes'' headers])"
    by auto
  moreover have "uploadPayload constants0 uploadEnv0 ''/tmp/zipped-code.zip'' =
      (Inr ''upload-1'',
       [CreateUploadUrl \<lparr>contentChecksum = ''digest-of-PK-bytes'',
           contentChecksumType_request = ''SHA_256'', uploadIntent_request = ''TRANSFORMATION''\<rparr>,
        Fetch ''PUT'' ''https://bucket.example/key'' ''PK-bytes''
          [(''x-amz-checksum-sha256'', ''digest-of-PK-bytes''),
           (''Content-Type'', ''application/zip'')]])"
    by (simp add: uploadPayload_def uploadArtifactToS3_def getSha256_def readFileSync_def
        uploadEnv0_def constants0_def)
  ultimately show ?thesis using f r by blast
qed

section \<open>Packaging the project\<close>

subsection \<open>Files are listed and read relative to their folder\<close>

lemma getFiles_prefix:
  "getFilesRecursively dir tree = map ((@) dir) (getFilesRecursively [] tree)"
  "getFilesOfEntry dir entry = map ((@) dir) (getFilesOfEntry [] entry)"
proof -
  have "(\<forall>d. getFilesRecursively d tree = map ((@) d) (getFilesRecursively [] tree))"
    and "(\<forall>d. getFilesOfEntry d entry = map ((@) d) (getFilesOfEntry [] entry))"
  proof (induction dir tree and dir entry rule: getFilesRecursively_getFilesOfEntry.induct)
    case (1 dir)
    show ?case by simp
  next
    case (2 dir entry entries)
    then show ?case by (metis getFilesRecursively.simps(2) map_append)
  next
    case (3 dir name content)
    show ?case by (simp add: path_resolve_def)
  next
    case (4 dir name children)
    show ?case
    proof (cases "name = ''target''")
      case True
      then show ?thesis by simp
    next
      case False
      with 4 have ih: "\<And>d. getFilesRecursively d children
          = map ((@) d) (getFilesRecursively [] children)"
        by blast
      show ?thesis
      proof
        fix d
        have "getFilesOfEntry d (Directory name children)
            = getFilesRecursively (d @ [name]) children"
          using False by (simp add: path_resolve_def)
        also have "\<dots> = map ((@) (d @ [name])) (getFilesRecursively [] children)"
          by (rule ih)
        also have "\<dots> = map ((@) d) (map ((@) [name]) (getFilesRecursively [] children))"
          by simp
        also have "map ((@) [name]) (getFilesRecursively [] children)
            = getFilesRecursively [name] children"
          by (rule ih [symmetric])
        also have "getFilesRecursively [name] children
            = getFilesOfEntry [] (Directory name children)"
          using False by (simp add: path_resolve_def)
        finally show "getFilesOfEntry d (Directory name children)
            = map ((@) d) (getFilesOfEntry [] (Directory name children))" .
      qed
    qed
  qed
  then show "getFilesRecursively dir tree = map ((@) dir) (getFilesRecursively [] tree)"
    and "getFilesOfEntry dir entry = map ((@) dir) (getFilesOfEntry [] entry)"
    by blast+
qed

lemma getFiles_nonempty:
  "[] \<notin> set (getFilesRecursively dir tree)"
  "[] \<notin> set (getFilesOfEntry dir entry)"
  by (induction dir tree and dir entry rule: getFilesRecursively_getFilesOfEntry.induct)
     (auto simp: path_resolve_def)

lemma path_relative_append: "path_relative folder (folder @ rel) = rel"
  by (induction folder) simp_all


lemma addLocalFile_below:
  assumes "rel \<noteq> []"
  shows "addLocalFile folder tree (folder @ rel) (path_dirname (path_join topDir rel)) z =
    (case fileAt tree rel of
       None \<Rightarrow> Inl (Error (''ADM-ZIP: File not found: '' @ path_text (folder @ rel)))
     | Some content \<Rightarrow> Inr (z(topDir @ rel \<mapsto> content)))"
proof -
  from assms have "butlast (topDir @ rel) @ [last rel] = topDir @ rel"
    by (simp add: butlast_append)
  with assms show ?thesis
    by (simp add: addLocalFile_def addFile_def path_relative_append path_dirname_def
        path_join_def split: option.splits)
qed

text \<open>
  What a loop over the listed files of a folder makes of an archive: it ends well
  exactly when every listed file can be read, and then the archive holds, under the
  top directory, each listed file with its content, and is otherwise as before.
\<close>

lemma addLocalFiles_result:
  assumes "[] \<notin> set rels"
    and "addLocalFiles folder tree topDir (map ((@) folder) rels) z = Inr z'"
  shows "(\<forall>rel \<in> set rels. fileAt tree rel \<noteq> None)
    \<and> (\<forall>name. z' name =
          (if name \<in> (@) topDir ` set rels then fileAt tree (drop (length topDir) name)
           else z name))"
  using assms
proof (induction rels arbitrary: z)
  case Nil
  then show ?case by simp
next
  case (Cons rel rels)
  from Cons.prems(1) have ne: "rel \<noteq> []" and rest: "[] \<notin> set rels" by auto
  from Cons.prems(2) obtain content where c: "fileAt tree rel = Some content"
    and r: "addLocalFiles folder tree topDir (map ((@) folder) rels) (z(topDir @ rel \<mapsto> content))
      = Inr z'"
    by (auto simp: path_relative_append addLocalFile_below [OF ne] split: option.splits)
  from Cons.IH [OF rest r]
  have all: "\<forall>rel \<in> set rels. fileAt tree rel \<noteq> None"
    and at: "\<And>name. z' name =
          (if name \<in> (@) topDir ` set rels then fileAt tree (drop (length topDir) name)
           else (z(topDir @ rel \<mapsto> content)) name)"
    by blast+
  have "z' name =
      (if name \<in> (@) topDir ` set (rel # rels) then fileAt tree (drop (length topDir) name)
       else z name)" for name
    using at [of name] c by auto
  with all c show ?case by simp
qed





subsection \<open>The runs of \<open>zipCode\<close>\<close>



lemma zipCode_MavenDone:
  assumes "mavenOutput e = MavenDone (Some copied)"
  shows "zipCode c js e modulePath =
    (case addLocalFiles modulePath (projectTree e) [''sources'']
            (getFilesRecursively modulePath (projectTree e))
            [[''manifest.json''] \<mapsto>
               js \<lparr>dependenciesRoot =
                     dependencyFolderName c @ numberToString (now e) @ ''/''\<rparr>] of
       Inl err \<Rightarrow> Inl err
     | Inr zipArchive1 \<Rightarrow>
        (case addLocalFiles (tmpdir e @ [dependencyFolderName c @ numberToString (now e)]) copied
                [dependencyFolderName c @ numberToString (now e)]
                (getFilesRecursively
                   (tmpdir e @ [dependencyFolderName c @ numberToString (now e)]) copied)
                zipArchive1 of
           Inl err \<Rightarrow> Inl err
         | Inr zipArchive2 \<Rightarrow> Inr (tmpdir e @ [''zipped-code.zip''], zipArchive2)))"
  using assms
  by (simp add: zipCode_def getProjectDependencies_def readDependencyFolder_def path_join_def
      addFile_def Let_def split: sum.splits)


text \<open>
  The entries of the archive that a run writes: \<open>manifest.json\<close>, every listed file
  of the module under \<open>sources\<close>, and every listed file of the dependency folder
  under the folder's name.
\<close>

lemma zipCode_archive_entries:
  assumes m: "mavenOutput e = MavenDone (Some copied)"
    and run: "zipCode c js e modulePath = Inr (file, zipArchive)"
  shows "zipArchive name =
    (if name \<in> (@) [dependencyFolderName c @ numberToString (now e)]
          ` set (getFilesRecursively [] copied)
     then fileAt copied (drop 1 name)
     else if name \<in> (@) [''sources''] ` set (getFilesRecursively [] (projectTree e))
     then fileAt (projectTree e) (drop 1 name)
     else if name = [''manifest.json'']
     then Some (js \<lparr>dependenciesRoot =
                        dependencyFolderName c @ numberToString (now e) @ ''/''\<rparr>)
     else None)"
proof -
  let ?name = "dependencyFolderName c @ numberToString (now e)"
  let ?z = "[[''manifest.json''] \<mapsto> js \<lparr>dependenciesRoot = ?name @ ''/''\<rparr>]"
  from run obtain z1 where
    src: "addLocalFiles modulePath (projectTree e) [''sources'']
        (getFilesRecursively modulePath (projectTree e)) ?z = Inr z1"
    and dep: "addLocalFiles (tmpdir e @ [?name]) copied [?name]
        (getFilesRecursively (tmpdir e @ [?name]) copied) z1 = Inr zipArchive"
    unfolding zipCode_MavenDone [OF m] by (auto split: sum.splits)
  from src have "addLocalFiles modulePath (projectTree e) [''sources'']
      (map ((@) modulePath) (getFilesRecursively [] (projectTree e))) ?z = Inr z1"
    by (subst getFiles_prefix(1) [symmetric])
  from addLocalFiles_result [OF getFiles_nonempty(1) this]
  have a1: "z1 name =
      (if name \<in> (@) [''sources''] ` set (getFilesRecursively [] (projectTree e))
       then fileAt (projectTree e) (drop (length [''sources'']) name) else ?z name)"
    by blast
  from dep have "addLocalFiles (tmpdir e @ [?name]) copied [?name]
      (map ((@) (tmpdir e @ [?name])) (getFilesRecursively [] copied)) z1 = Inr zipArchive"
    by (subst getFiles_prefix(1) [symmetric])
  from addLocalFiles_result [OF getFiles_nonempty(1) this]
  have a2: "zipArchive name =
      (if name \<in> (@) [?name] ` set (getFilesRecursively [] copied)
       then fileAt copied (drop (length [?name]) name) else z1 name)"
    by blast
  from a1 a2 show ?thesis by simp
qed


subsection \<open>The claim about packaging\<close>




section \<open>The environment settings wizard\<close>

subsection \<open>Objects that exist are left alone\<close>

lemma assignForm_frame:
  "n \<le> a \<Longrightarrow> take n (assignForm h a upd) = take n h"
  by (simp add: assignForm_def split: option.splits)

lemma instanceItemData_frame:
  "n \<le> a \<Longrightarrow> take n (instanceItemData h a result) = take n h"
  by (simp add: instanceItemData_def assignForm_frame split: option.splits)

lemma timeoutItemData_frame:
  "n \<le> a \<Longrightarrow> take n (timeoutItemData h a result) = take n h"
  by (simp add: timeoutItemData_def assignForm_frame split: option.splits)

lemma storageItemData_frame:
  "n \<le> a \<Longrightarrow> n \<le> length h \<Longrightarrow> take n (storageItemData h a result) = take n h"
  by (simp add: storageItemData_def assignForm_frame split: option.splits)

lemma take_length_le: "take n h' = take n h \<Longrightarrow> n \<le> length h \<Longrightarrow> n \<le> length h'"
  by (metis length_take min.absorb2 min.cobounded1)

text \<open>
  The loop changes no object below the address of \<open>curr\<close>: its writes go to
  \<open>curr\<close> and to objects created after it.
\<close>

lemma runLoop_frame:
  "n \<le> current \<Longrightarrow> n \<le> length h \<Longrightarrow>
    take n (fst (runLoop h initState current actions shown)) = take n h"
proof (induction actions arbitrary: h shown)
  case Nil
  then show ?case
    by (subst runLoop.simps) (simp split: sum.splits)
next
  case (Cons action later)
  show ?case
  proof (cases "createMenuPrompt h initState current")
    case (Inl err)
    then show ?thesis by (subst runLoop.simps) simp
  next
    case (Inr prompter)
    show ?thesis
    proof (cases action)
      case (EditComputeSize result)
      let ?h = "instanceItemData h current result"
      have f: "take n ?h = take n h" using Cons.prems(1) by (rule instanceItemData_frame)
      from f Cons.prems(2) have "n \<le> length ?h" by (rule take_length_le)
      from Cons.IH [OF Cons.prems(1) this] f Inr EditComputeSize show ?thesis
        by (subst runLoop.simps) simp
    next
      case (EditTimeoutLength result)
      let ?h = "timeoutItemData h current result"
      have f: "take n ?h = take n h" using Cons.prems(1) by (rule timeoutItemData_frame)
      from f Cons.prems(2) have "n \<le> length ?h" by (rule take_length_le)
      from Cons.IH [OF Cons.prems(1) this] f Inr EditTimeoutLength show ?thesis
        by (subst runLoop.simps) simp
    next
      case (EditPersistentStorageSize result)
      let ?h = "storageItemData h current result"
      have f: "take n ?h = take n h" using Cons.prems by (rule storageItemData_frame)
      from f Cons.prems(2) have "n \<le> length ?h" by (rule take_length_le)
      from Cons.IH [OF Cons.prems(1) this] f Inr EditPersistentStorageSize show ?thesis
        by (subst runLoop.simps) simp
    next
      case SaveSettings
      with Inr show ?thesis by (subst runLoop.simps) simp
    next
      case Leave
      with Inr show ?thesis by (subst runLoop.simps) simp
    qed
  qed
qed

lemma run_frame: "take (length h) (fst (run h initState actions)) = h"
proof (cases "formAt h initState")
  case None
  then show ?thesis by (simp add: run_def)
next
  case (Some f)
  have "take (length h) (fst (runLoop (h @ [SettingsForm f]) initState (length h) actions []))
      = take (length h) (h @ [SettingsForm f])"
    by (rule runLoop_frame) simp_all
  with Some show ?thesis by (simp add: run_def)
qed

lemma frame_nth:
  assumes "take (length h) h' = h" and "a < length h"
  shows "a < length h'" and "h' ! a = h ! a"
proof -
  from assms(1) have "length h \<le> length h'"
    by (metis length_take min.cobounded1)
  with assms(2) show "a < length h'" by simp
  from assms show "h' ! a = h ! a" by (metis nth_take)
qed

lemma frame_formAt:
  assumes "take (length h) h' = h" and "formAt h a = Some f"
  shows "formAt h' a = Some f"
proof -
  from assms(2) have a: "a < length h" by (simp add: formAt_def split: if_splits)
  from frame_nth [OF assms(1) a] assms(2) a show ?thesis by (simp add: formAt_def)
qed

lemma frame_storageAt:
  assumes "take (length h) h' = h" and "storageAt h a = Some s"
  shows "storageAt h' a = Some s"
proof -
  from assms(2) have a: "a < length h" by (simp add: storageAt_def split: if_splits)
  from frame_nth [OF assms(1) a] assms(2) a show ?thesis by (simp add: storageAt_def)
qed

subsection \<open>The claim about the initial settings\<close>

text \<open>
  C8. \<open>run\<close> never mutates the initial settings object. Whatever the user does in
  the menus, when \<open>run\<close> ends, or waits for the user, every object that existed
  before the call is as it was; so the initial settings read as before, in the fields
  of the form and in the \<open>sizeInGiB\<close> of the persistent storage object it refers to.
\<close>

theorem run_leaves_initState:
  assumes "readState h initState = Some (initForm, initStorage)"
    and "run h initState actions = (h', result, shown)"
  shows "readState h' initState = Some (initForm, initStorage) \<and> take (length h) h' = h"
proof -
  from run_frame [of h initState actions] assms(2) have fr: "take (length h) h' = h" by simp
  from assms(1) have f: "formAt h initState = Some initForm"
    and s: "storageAt h (persistentStorage initForm) = Some initStorage"
    by (auto simp: readState_def split: option.splits)
  from frame_formAt [OF fr f] frame_storageAt [OF fr s]
  have "readState h' initState = Some (initForm, initStorage)" by (simp add: readState_def)
  with fr show ?thesis by blast
qed

text \<open>
  The user changes the storage size and the timeout, opens and leaves the compute size
  prompt, and saves: \<open>run\<close> returns the copy, at address 2, which refers to a new
  storage object, at address 3; the initial settings, at address 1, and their storage
  object, at address 0, read as before.
\<close>

theorem run_leaves_initState_witness:
  "readState heap0 1 =
     Some (\<lparr>inactivityTimeoutMinutes = Number 30, instanceType = ''mde.large'',
              persistentStorage = 0\<rparr>, \<lparr>sizeInGiB = Number 16\<rparr>)
   \<and> run heap0 1 [EditPersistentStorageSize (Some (Number 32)), EditTimeoutLength (Some NaN),
         EditComputeSize None, SaveSettings] =
      (heap0 @
        [SettingsForm \<lparr>inactivityTimeoutMinutes = NaN, instanceType = ''mde.large'',
                        persistentStorage = 3\<rparr>,
         PersistentStorage \<lparr>sizeInGiB = Number 32\<rparr>],
       Returns 2,
       [\<lparr>instanceDescription = None, timeoutDescription = None, storageDescription = None\<rparr>,
        \<lparr>instanceDescription = None, timeoutDescription = None,
           storageDescription = Some ''(Modified)''\<rparr>,
        \<lparr>instanceDescription = None, timeoutDescription = Some ''(Modified)'',
           storageDescription = Some ''(Modified)''\<rparr>,
        \<lparr>instanceDescription = None, timeoutDescription = Some ''(Modified)'',
           storageDescription = Some ''(Modified)''\<rparr>])
   \<and> readState
        (heap0 @
          [SettingsForm \<lparr>inactivityTimeoutMinutes = NaN, instanceType = ''mde.large'',
                          persistentStorage = 3\<rparr>,
           PersistentStorage \<lparr>sizeInGiB = Number 32\<rparr>]) 1 =
      Some (\<lparr>inactivityTimeoutMinutes = Number 30, instanceType = ''mde.large'',
               persistentStorage = 0\<rparr>, \<lparr>sizeInGiB = Number 16\<rparr>)"
proof -
  have r: "readState heap0 1 =
     Some (\<lparr>inactivityTimeoutMinutes = Number 30, instanceType = ''mde.large'',
              persistentStorage = 0\<rparr>, \<lparr>sizeInGiB = Number 16\<rparr>)"
    by (simp add: readState_def formAt_def storageAt_def heap0_def)
  have e: "run heap0 1 [EditPersistentStorageSize (Some (Number 32)), EditTimeoutLength (Some NaN),
         EditComputeSize None, SaveSettings] =
      (heap0 @
        [SettingsForm \<lparr>inactivityTimeoutMinutes = NaN, instanceType = ''mde.large'',
                        persistentStorage = 3\<rparr>,
         PersistentStorage \<lparr>sizeInGiB = Number 32\<rparr>],
       Returns 2,
       [\<lparr>instanceDescription = None, timeoutDescription = None, storageDescription = None\<rparr>,
        \<lparr>instanceDescription = None, timeoutDescription = None,
           storageDescription = Some ''(Modified)''\<rparr>,
        \<lparr>instanceDescription = None, timeoutDescription = Some ''(Modified)'',
           storageDescription = Some ''(Modified)''\<rparr>,
        \<lparr>instanceDescription = None, timeoutDescription = Some ''(Modified)'',
           storageDescription = Some ''(Modified)''\<rparr>])"
    by (simp add: run_def runLoop.simps createMenuPrompt_def readState_def formAt_def
        storageAt_def heap0_def diff_def diffPersistentStorage_def strictNotEqual_def
        storageItemData_def timeoutItemData_def instanceItemData_def assignForm_def)
  from run_leaves_initState [OF r e] r e show ?thesis by blast
qed

end
